theory Spec2Isabelle
  imports Main "HOL-Library.Word"
begin

unbundle bit_operations_syntax

section \<open>Machine data\<close>

text \<open>
  The three C files (\<^verbatim>\<open>Video_Code/Finalizing_Padding/Finalizing_padding.c\<close>, the SHA-2-style
  program; \<^verbatim>\<open>Program/md5.c\<close> and the unnamed file \<^verbatim>\<open>part_000\<close>, two MD5-style programs) work
  on \<^verbatim>\<open>uint8_t\<close>, \<^verbatim>\<open>uint32_t\<close> and \<^verbatim>\<open>uint64_t\<close>. They are words of that width; \<open>+\<close> wraps.
\<close>

type_synonym BYTE = "8 word"
type_synonym WORD = "32 word"
type_synonym u64 = "64 word"

text \<open>
  \<^verbatim>\<open>union block { uint64_t sixfour[8]; uint32_t threetwo[16]; uint8_t eight[64]; }\<close> is 64 bytes
  of storage seen through three arrays. The model keeps the bytes (the member \<^verbatim>\<open>eight\<close>) and
  reads or writes the wider members through the byte order of the machine the program runs
  on, which C leaves to the implementation: it is a parameter of every function that goes
  through \<^verbatim>\<open>threetwo\<close> or \<^verbatim>\<open>sixfour\<close>.
\<close>

type_synonym block = "BYTE list"

datatype endian = LittleEndian | BigEndian

fun le_word :: "BYTE list \<Rightarrow> 'a::len word" where
  "le_word [] = 0"
| "le_word (b # bs) = ucast b OR push_bit 8 (le_word bs)"

fun le_bytes :: "nat \<Rightarrow> 'a::len word \<Rightarrow> BYTE list" where
  "le_bytes 0 w = []"
| "le_bytes (Suc n) w = ucast w # le_bytes n (drop_bit 8 w)"

definition mem_word :: "endian \<Rightarrow> BYTE list \<Rightarrow> 'a::len word" where
  "mem_word e bs = (case e of LittleEndian \<Rightarrow> le_word bs | BigEndian \<Rightarrow> le_word (rev bs))"

definition mem_bytes :: "endian \<Rightarrow> nat \<Rightarrow> 'a::len word \<Rightarrow> BYTE list" where
  "mem_bytes e n w = (case e of LittleEndian \<Rightarrow> le_bytes n w | BigEndian \<Rightarrow> rev (le_bytes n w))"

text \<open>\<^verbatim>\<open>M->threetwo[t]\<close> as an rvalue.\<close>

definition threetwo :: "endian \<Rightarrow> block \<Rightarrow> nat \<Rightarrow> WORD" where
  "threetwo e M t = mem_word e (take 4 (drop (4 * t) M))"

text \<open>\<^verbatim>\<open>M->sixfour[k] = v\<close>.\<close>

definition set_sixfour :: "endian \<Rightarrow> block \<Rightarrow> nat \<Rightarrow> u64 \<Rightarrow> block" where
  "set_sixfour e M k v = take (8 * k) M @ mem_bytes e 8 v @ drop (8 * k + 8) M"

text \<open>\<^verbatim>\<open>for (i = lo; i < hi; i++) body\<close>, the body a state transformer that does not assign \<^verbatim>\<open>i\<close>.\<close>

function for_loop :: "nat \<Rightarrow> nat \<Rightarrow> (nat \<Rightarrow> 's \<Rightarrow> 's) \<Rightarrow> 's \<Rightarrow> 's" where
  "for_loop i hi body s = (if i < hi then for_loop (Suc i) hi body (body i s) else s)"
  by pat_completeness auto
termination
  by (relation "measure (\<lambda>(i, hi, body, s). hi - i)") auto

declare for_loop.simps [simp del]

text \<open>
  \<^verbatim>\<open>fread(M->eight, 1, 64, infile)\<close> on a regular file whose unread bytes are \<open>infile\<close>: it
  stores the bytes it got at the start of the buffer, leaves the rest of the buffer as it
  was, and returns how many it got. Read errors are not modelled.
\<close>

definition fread :: "block \<Rightarrow> nat \<Rightarrow> BYTE list \<Rightarrow> nat \<times> block \<times> BYTE list" where
  "fread M cnt infile =
     (let n = min cnt (length infile) in (n, take n infile @ drop n M, drop n infile))"

text \<open>
  \<^verbatim>\<open>enum flag { READ, PAD0, PAD1, FINISH }\<close> of the SHA-2-style file. The enum of the two MD5
  files has no \<^verbatim>\<open>PAD1\<close>; their \<^verbatim>\<open>switch\<close> has a \<^verbatim>\<open>default\<close> label, which is where any value
  other than \<^verbatim>\<open>FINISH\<close> and \<^verbatim>\<open>PAD0\<close> goes.
\<close>

datatype PADFLAG = READ | PAD0 | PAD1 | FINISH

section \<open>The SHA-2-style program (Finalizing\_padding.c)\<close>

text \<open>\<^verbatim>\<open>const uint32_t K[64]\<close>, one line of the initialiser per row.\<close>

definition K :: "WORD list" where
  "K = concat [
    [0x428a2f98, 0x71374491, 0xb5c0fbcf, 0xe9b5dba5],
    [0x3956c25b, 0x59f111f1, 0x923f82a4, 0xab1c5ed5],
    [0xd807aa98, 0x12835b01, 0x243185be, 0x550c7dc3],
    [0x72be5d74, 0x80deb1fe, 0x9bdc06a7, 0xc19bf174],
    [0xe49b69c1, 0xefbe4786, 0x0fc19dc6, 0x240ca1cc],
    [0x2de92c6f, 0x4a7484aa, 0x5cb0a9dc, 0x76f988da],
    [0x983e5152, 0xa831c66d, 0xb00327c8, 0xbf597fc7],
    [0xc6e00bf3, 0xd5a79147, 0x06ca6351, 0x14292967],
    [0x27b70a85, 0x2e1b2138, 0x4d2c6dfc, 0x53380d13],
    [0x650a7354, 0x766a0abb, 0x81c2c92e, 0x92722c85],
    [0xa2bfe8a1, 0xa81a664b, 0xc24b8b70, 0xc76c51a3],
    [0xd192e819, 0xd6990624, 0xf40e3585, 0x106aa070],
    [0x19a4c116, 0x1e376c08, 0x2748774c, 0x34b0bcb5],
    [0x391c0cb3, 0x4ed8aa4a, 0x5b9cca4f, 0x682e6ff3],
    [0x748f82ee, 0x78a5636f, 0x84c87814, 0x8cc70208],
    [0x90befffa, 0xa4506ceb, 0xbef9a3f7, 0xc67178f2]]"

definition Maj :: "WORD \<Rightarrow> WORD \<Rightarrow> WORD \<Rightarrow> WORD" where
  "Maj x y z = (x AND y) XOR (x AND z) XOR (y AND z)"

definition Ch :: "WORD \<Rightarrow> WORD \<Rightarrow> WORD \<Rightarrow> WORD" where
  "Ch x y z = (x AND y) XOR (NOT x AND z)"

definition SHR :: "WORD \<Rightarrow> nat \<Rightarrow> WORD" where
  "SHR x n = drop_bit n x"

definition ROTR :: "WORD \<Rightarrow> nat \<Rightarrow> WORD" where
  "ROTR x n = drop_bit n x OR push_bit (32 - n) x"

definition Sig0 :: "WORD \<Rightarrow> WORD" where
  "Sig0 x = ROTR x 2 XOR ROTR x 13 XOR ROTR x 22"

definition Sig1 :: "WORD \<Rightarrow> WORD" where
  "Sig1 x = ROTR x 6 XOR ROTR x 11 XOR ROTR x 25"

definition sig_zero :: "WORD \<Rightarrow> WORD" where
  "sig_zero x = ROTR x 7 XOR ROTR x 18 XOR SHR x 3"

definition sig_one :: "WORD \<Rightarrow> WORD" where
  "sig_one x = ROTR x 17 XOR ROTR x 19 XOR SHR x 10"

subsection \<open>nextblock\<close>

text \<open>
  \<^verbatim>\<open>int nextblock(union block *M, FILE *infile, uint64_t *nobits, PADFLAG *status)\<close>: the four
  objects behind the pointers go in and come out; the first component is the return value
  (\<open>True\<close> for 1, \<open>False\<close> for 0). This version never assigns \<^verbatim>\<open>*nobits\<close>.
\<close>

definition nextblock ::
  "endian \<Rightarrow> block \<Rightarrow> BYTE list \<Rightarrow> u64 \<Rightarrow> PADFLAG \<Rightarrow> bool \<times> block \<times> BYTE list \<times> u64 \<times> PADFLAG" where
  "nextblock e M infile nobits status =
     (if status = FINISH then (False, M, infile, nobits, status)
      else if status = PAD1 then
        (let M = M[0 := 0x80];
             M = for_loop 1 56 (\<lambda>i M. M[i := 0]) M;
             M = set_sixfour e M 7 nobits
         in (True, M, infile, nobits, FINISH))
      else if status = PAD0 then
        (let M = for_loop 0 56 (\<lambda>i M. M[i := 0]) M;
             M = set_sixfour e M 7 nobits
         in (True, M, infile, nobits, FINISH))
      else
        (let (nobytesread, M, infile) = fread M 64 infile in
         if nobytesread = 64 then (True, M, infile, nobits, status)
         else if nobytesread < 56 then
           (let M = M[nobytesread := 0x80];
                M = for_loop (nobytesread + 1) 56 (\<lambda>i M. M[i := 0]) M;
                M = set_sixfour e M 7 nobits
            in (True, M, infile, nobits, FINISH))
         else
           (let M = M[nobytesread := 0x80];
                M = for_loop (nobytesread + 1) 64 (\<lambda>i M. M[i := 0]) M
            in (True, M, infile, nobits, PAD0))))"

subsection \<open>nexthash\<close>

text \<open>
  \<^verbatim>\<open>uint32_t W[64]\<close> is a local array without initialiser: a cell holds \<open>None\<close> until the
  function stores into it. C gives no meaning to reading such a cell, nor to reading
  \<^verbatim>\<open>W[64]\<close> or \<^verbatim>\<open>K[64]\<close>; the model lets such a read return whatever word the memory happens
  to hold (\<open>W_mem\<close> and \<open>K_mem\<close> of a \<open>garbage\<close>, about which nothing is assumed) and
  records the read as a fault.
\<close>

record garbage =
  W_mem :: "nat \<Rightarrow> WORD"
  K_mem :: "nat \<Rightarrow> WORD"

datatype fault = W_uninitialised nat | W_out_of_bounds nat | K_out_of_bounds nat

definition W_read :: "garbage \<Rightarrow> WORD option list \<Rightarrow> nat \<Rightarrow> WORD \<times> fault list" where
  "W_read gb W t =
     (if t < length W
      then (case W ! t of Some w \<Rightarrow> (w, []) | None \<Rightarrow> (W_mem gb t, [W_uninitialised t]))
      else (W_mem gb t, [W_out_of_bounds t]))"

definition K_read :: "garbage \<Rightarrow> nat \<Rightarrow> WORD \<times> fault list" where
  "K_read gb t = (if t < length K then (K ! t, []) else (K_mem gb t, [K_out_of_bounds t]))"

text \<open>The body of \<^verbatim>\<open>for (t = 0; t < 16; t++)\<close>: \<^verbatim>\<open>W[t] = M->threetwo[t]\<close>.\<close>

definition W_copy :: "endian \<Rightarrow> block \<Rightarrow> nat \<Rightarrow> WORD option list \<times> fault list \<Rightarrow> WORD option list \<times> fault list" where
  "W_copy e M t = (\<lambda>(W, fs). (W[t := Some (threetwo e M t)], fs))"

text \<open>
  The body of the second loop:
  \<^verbatim>\<open>W[t] = sig_one(W[t-2]) + W[t-7] + sig_zero(W[t-15]) + W[t-16]\<close>.
\<close>

definition W_extend :: "garbage \<Rightarrow> nat \<Rightarrow> WORD option list \<times> fault list \<Rightarrow> WORD option list \<times> fault list" where
  "W_extend gb t = (\<lambda>(W, fs).
     let (w2, f2) = W_read gb W (t - 2);
         (w7, f7) = W_read gb W (t - 7);
         (w15, f15) = W_read gb W (t - 15);
         (w16, f16) = W_read gb W (t - 16)
     in (W[t := Some (sig_one w2 + w7 + sig_zero w15 + w16)], fs @ f2 @ f7 @ f15 @ f16))"

text \<open>
  The two schedule loops as the source bounds them:
  \<^verbatim>\<open>for (t = 0; t < 16; t++)\<close> and \<^verbatim>\<open>for (t = 16; t < 16; t++)\<close>.
\<close>

definition schedule :: "garbage \<Rightarrow> endian \<Rightarrow> block \<Rightarrow> WORD option list \<times> fault list" where
  "schedule gb e M =
     for_loop 16 16 (W_extend gb) (for_loop 0 16 (W_copy e M) (replicate 64 None, []))"

type_synonym regs8 = "WORD \<times> WORD \<times> WORD \<times> WORD \<times> WORD \<times> WORD \<times> WORD \<times> WORD"

text \<open>
  The body of \<^verbatim>\<open>for (t = 0; t < 65; t++)\<close>, the update of \<^verbatim>\<open>H\<close> included, which the source
  has inside the loop. \<^verbatim>\<open>H\<close> is the caller's array of eight words.
\<close>

definition nexthash_round :: "garbage \<Rightarrow> WORD option list \<Rightarrow> nat \<Rightarrow> regs8 \<times> WORD list \<times> fault list \<Rightarrow> regs8 \<times> WORD list \<times> fault list" where
  "nexthash_round gb W t = (\<lambda>((a, b, c, d, e, f, g, h), H, fs).
     let (k, fk) = K_read gb t;
         (w, fw) = W_read gb W t;
         T1 = h + Sig1 e + Ch e f g + k + w;
         T2 = Sig0 a + Maj a b c;
         h = g; g = f; f = e; e = d + T1;
         d = c; c = b; b = a; a = T1 + T2;
         H = H[0 := H ! 0 + a]; H = H[1 := H ! 1 + b]; H = H[2 := H ! 2 + c];
         H = H[3 := H ! 3 + d]; H = H[4 := H ! 4 + e]; H = H[5 := H ! 5 + f];
         H = H[6 := H ! 6 + g]; H = H[7 := H ! 7 + f]
     in ((a, b, c, d, e, f, g, h), H, fs @ fk @ fw))"

text \<open>\<^verbatim>\<open>void nexthash(union block *M, uint32_t *H)\<close>: the new \<^verbatim>\<open>H\<close> and the faulty reads.\<close>

definition nexthash :: "garbage \<Rightarrow> endian \<Rightarrow> block \<Rightarrow> WORD list \<Rightarrow> WORD list \<times> fault list" where
  "nexthash gb e M H =
     (let (W, fs) = schedule gb e M;
          r = (H ! 0, H ! 1, H ! 2, H ! 3, H ! 4, H ! 5, H ! 6, H ! 7);
          (r, H, fs) = for_loop 0 65 (nexthash_round gb W) (r, H, fs)
      in (H, fs))"

subsection \<open>main\<close>

text \<open>
  \<^verbatim>\<open>while (nextblock(&M, infile, &nobits, &status)) body\<close>, for any loop body \<open>f\<close> that
  uses the block and keeps a state of its own. The loop ends because every call that returns
  1 either uses up input or moves \<^verbatim>\<open>status\<close> towards \<^verbatim>\<open>FINISH\<close>.
\<close>

fun rank :: "PADFLAG \<Rightarrow> nat" where
  "rank READ = 2"
| "rank PAD1 = 2"
| "rank PAD0 = 1"
| "rank FINISH = 0"

function while_nextblock ::
  "endian \<Rightarrow> (block \<Rightarrow> 'h \<Rightarrow> 'h) \<Rightarrow> block \<Rightarrow> BYTE list \<Rightarrow> u64 \<Rightarrow> PADFLAG \<Rightarrow> 'h \<Rightarrow> 'h" where
  "while_nextblock e f M infile nobits status h =
     (case nextblock e M infile nobits status of
        (r, M', infile', nobits', status') \<Rightarrow>
          if r then while_nextblock e f M' infile' nobits' status' (f M' h) else h)"
  by pat_completeness auto
termination
proof (relation "measure (\<lambda>(e, f, M, infile, nobits, status, h). length infile + rank status)")
  show "wf (measure (\<lambda>(e, f, M, infile, nobits, status, h). length infile + rank status))"
    by simp
next
  fix e :: endian and f :: "block \<Rightarrow> 'h \<Rightarrow> 'h" and M infile nobits status and h :: 'h
    and r y M' z infile' w nobits' status'
  assume "(r, y) = nextblock e M infile nobits status" "(M', z) = y"
    "(infile', w) = z" "(nobits', status') = w" "r"
  then have "nextblock e M infile nobits status = (True, M', infile', nobits', status')"
    by (metis (full_types))
  then have "length infile' + rank status' < length infile + rank status"
    by (cases status) (auto simp: nextblock_def fread_def Let_def split: if_splits)
  then show "((e, f, M', infile', nobits', status', f M' h), (e, f, M, infile, nobits, status, h))
      \<in> measure (\<lambda>(e, f, M, infile, nobits, status, h). length infile + rank status)"
    by simp
qed

declare while_nextblock.simps [simp del]

text \<open>
  \<^verbatim>\<open>main\<close> after the file is open: \<^verbatim>\<open>H\<close> starts at the constants of section 5.3.3,
  \<^verbatim>\<open>nobits\<close> at 0, \<^verbatim>\<open>status\<close> at \<^verbatim>\<open>READ\<close>; \<^verbatim>\<open>union block M\<close> has no initialiser and holds
  \<open>M0\<close>. The result is the eight words that \<^verbatim>\<open>main\<close> then prints, with the faulty reads of
  all calls of \<^verbatim>\<open>nexthash\<close>. \<open>blocks\<close> is the list of blocks the same loop hands to
  \<^verbatim>\<open>nexthash\<close>.
\<close>

definition H_init :: "WORD list" where
  "H_init = [
    0x6a09e667,0xbb67ae85,0x3c6ef372,0xa54ff53a,
    0x510e527f,0x9b05688c,0x1f83d9ab,0x5be0cd19]"

definition main :: "garbage \<Rightarrow> endian \<Rightarrow> block \<Rightarrow> BYTE list \<Rightarrow> WORD list \<times> fault list" where
  "main gb e M0 infile =
     while_nextblock e
       (\<lambda>M (H, fs). let (H, fs') = nexthash gb e M H in (H, fs @ fs'))
       M0 infile 0 READ (H_init, [])"

definition blocks :: "endian \<Rightarrow> block \<Rightarrow> BYTE list \<Rightarrow> block list" where
  "blocks e M0 infile = while_nextblock e (\<lambda>M bs. bs @ [M]) M0 infile 0 READ []"

section \<open>The MD5-style programs (part\_000 and Program/md5.c)\<close>

text \<open>
  The macros, tables and initial values are the same text in both files; \<^verbatim>\<open>AA\<close>, \<^verbatim>\<open>BB\<close>,
  \<^verbatim>\<open>CC\<close>, \<^verbatim>\<open>DD\<close> and \<^verbatim>\<open>MM\<close> exist in part\_000 only. The tables that are used as indices
  or shift counts are lists of naturals.
\<close>

definition ROTL :: "WORD \<Rightarrow> nat \<Rightarrow> WORD" where
  "ROTL x n = push_bit n x OR drop_bit (32 - n) x"

definition md5_F :: "WORD \<Rightarrow> WORD \<Rightarrow> WORD \<Rightarrow> WORD" where
  "md5_F x y z = (x AND y) OR (NOT x AND z)"

definition md5_G :: "WORD \<Rightarrow> WORD \<Rightarrow> WORD \<Rightarrow> WORD" where
  "md5_G x y z = (x AND z) OR (y AND NOT z)"

definition md5_H :: "WORD \<Rightarrow> WORD \<Rightarrow> WORD \<Rightarrow> WORD" where
  "md5_H x y z = x XOR y XOR z"

definition md5_I :: "WORD \<Rightarrow> WORD \<Rightarrow> WORD \<Rightarrow> WORD" where
  "md5_I x y z = y XOR (x OR NOT z)"

text \<open>
  \<^verbatim>\<open>#define FF(a,b,c,d,m,s,t) { a += F(b,c,d) + m + t; a = b + ROTL(a,s); }\<close> and its three
  siblings. The first four arguments are lvalues: elements \<^verbatim>\<open>H[AA[i]]\<close>, ... of the array
  \<^verbatim>\<open>H\<close> in part\_000, the locals \<^verbatim>\<open>a\<close>, \<^verbatim>\<open>b\<close>, \<^verbatim>\<open>c\<close>, \<^verbatim>\<open>d\<close> in md5.c. Here they are
  positions in a list \<open>X\<close> of four words, which is the array \<^verbatim>\<open>H\<close>, or the four locals in
  the order a, b, c, d.
\<close>

definition FF :: "WORD list \<Rightarrow> nat \<Rightarrow> nat \<Rightarrow> nat \<Rightarrow> nat \<Rightarrow> WORD \<Rightarrow> nat \<Rightarrow> WORD \<Rightarrow> WORD list" where
  "FF X a b c d m s t =
     (let X = X[a := X ! a + (md5_F (X ! b) (X ! c) (X ! d) + m + t)]
      in X[a := X ! b + ROTL (X ! a) s])"

definition GG :: "WORD list \<Rightarrow> nat \<Rightarrow> nat \<Rightarrow> nat \<Rightarrow> nat \<Rightarrow> WORD \<Rightarrow> nat \<Rightarrow> WORD \<Rightarrow> WORD list" where
  "GG X a b c d m s t =
     (let X = X[a := X ! a + (md5_G (X ! b) (X ! c) (X ! d) + m + t)]
      in X[a := X ! b + ROTL (X ! a) s])"

definition HH :: "WORD list \<Rightarrow> nat \<Rightarrow> nat \<Rightarrow> nat \<Rightarrow> nat \<Rightarrow> WORD \<Rightarrow> nat \<Rightarrow> WORD \<Rightarrow> WORD list" where
  "HH X a b c d m s t =
     (let X = X[a := X ! a + (md5_H (X ! b) (X ! c) (X ! d) + m + t)]
      in X[a := X ! b + ROTL (X ! a) s])"

definition II :: "WORD list \<Rightarrow> nat \<Rightarrow> nat \<Rightarrow> nat \<Rightarrow> nat \<Rightarrow> WORD \<Rightarrow> nat \<Rightarrow> WORD \<Rightarrow> WORD list" where
  "II X a b c d m s t =
     (let X = X[a := X ! a + (md5_I (X ! b) (X ! c) (X ! d) + m + t)]
      in X[a := X ! b + ROTL (X ! a) s])"

definition AA :: "nat list" where "AA = [
    0, 3, 2, 1, 0, 3, 2, 1, 0, 3, 2, 1, 0, 3, 2, 1,
    0, 3, 2, 1, 0, 3, 2, 1, 0, 3, 2, 1, 0, 3, 2, 1,
    0, 3, 2, 1, 0, 3, 2, 1, 0, 3, 2, 1, 0, 3, 2, 1,
    0, 3, 2, 1, 0, 3, 2, 1, 0, 3, 2, 1, 0, 3, 2, 1]"

definition BB :: "nat list" where "BB = [
    1, 0, 3, 2, 1, 0, 3, 2, 1, 0, 3, 2, 1, 0, 3, 2,
    1, 0, 3, 2, 1, 0, 3, 2, 1, 0, 3, 2, 1, 0, 3, 2,
    1, 0, 3, 2, 1, 0, 3, 2, 1, 0, 3, 2, 1, 0, 3, 2,
    1, 0, 3, 2, 1, 0, 3, 2, 1, 0, 3, 2, 1, 0, 3, 2]"

definition CC :: "nat list" where "CC = [
    2, 1, 0, 3, 2, 1, 0, 3, 2, 1, 0, 3, 2, 1, 0, 3,
    2, 1, 0, 3, 2, 1, 0, 3, 2, 1, 0, 3, 2, 1, 0, 3,
    2, 1, 0, 3, 2, 1, 0, 3, 2, 1, 0, 3, 2, 1, 0, 3,
    2, 1, 0, 3, 2, 1, 0, 3, 2, 1, 0, 3, 2, 1, 0, 3]"

definition DD :: "nat list" where "DD = [
    3, 2, 1, 0, 3, 2, 1, 0, 3, 2, 1, 0, 3, 2, 1, 0,
    3, 2, 1, 0, 3, 2, 1, 0, 3, 2, 1, 0, 3, 2, 1, 0,
    3, 2, 1, 0, 3, 2, 1, 0, 3, 2, 1, 0, 3, 2, 1, 0,
    3, 2, 1, 0, 3, 2, 1, 0, 3, 2, 1, 0, 3, 2, 1, 0]"

definition MM :: "nat list" where "MM = [
    0, 1,  2,  3,  4,  5,  6,  7,  8,  9, 10, 11, 12, 13, 14, 15,
    1, 6, 11,  0,  5, 10, 15,  4,  9, 14,  3,  8, 13,  2,  7, 12,
    5, 8, 11, 14,  1,  4,  7, 10, 13,  0,  3,  6,  9, 12, 15,  2,
    0, 7, 14,  5, 12,  3, 10,  1,  8, 15,  6, 13,  4, 11,  2,  9]"

definition S :: "nat list" where "S = [
    7, 12, 17, 22, 7, 12, 17, 22, 7, 12, 17, 22, 7, 12, 17, 22,
    5,  9, 14, 20, 5,  9, 14, 20, 5,  9, 14, 20, 5,  9, 14, 20,
    4, 11, 16, 23, 4, 11, 16, 23, 4, 11, 16, 23, 4, 11, 16, 23,
    6, 10, 15, 21, 6, 10, 15, 21, 6, 10, 15, 21, 6, 10, 15, 21]"

definition T :: "WORD list" where "T = [
    0xd76aa478, 0xe8c7b756, 0x242070db, 0xc1bdceee,
    0xf57c0faf, 0x4787c62a, 0xa8304613, 0xfd469501,
    0x698098d8, 0x8b44f7af, 0xffff5bb1, 0x895cd7be,
    0x6b901122, 0xfd987193, 0xa679438e, 0x49b40821,
    0xf61e2562, 0xc040b340, 0x265e5a51, 0xe9b6c7aa,
    0xd62f105d, 0x02441453, 0xd8a1e681, 0xe7d3fbc8,
    0x21e1cde6, 0xc33707d6, 0xf4d50d87, 0x455a14ed,
    0xa9e3e905, 0xfcefa3f8, 0x676f02d9, 0x8d2a4c8a,
    0xfffa3942, 0x8771f681, 0x6d9d6122, 0xfde5380c,
    0xa4beea44, 0x4bdecfa9, 0xf6bb4b60, 0xbebfbc70,
    0x289b7ec6, 0xeaa127fa, 0xd4ef3085, 0x04881d05,
    0xd9d4d039, 0xe6db99e5, 0x1fa27cf8, 0xc4ac5665,
    0xf4292244, 0x432aff97, 0xab9423a7, 0xfc93a039,
    0x655b59c3, 0x8f0ccc92, 0xffeff47d, 0x85845dd1,
    0x6fa87e4f, 0xfe2ce6e0, 0xa3014314, 0x4e0811a1,
    0xf7537e82, 0xbd3af235, 0x2ad7d2bb, 0xeb86d391]"

definition A :: WORD where "A = 0x67452301"
definition B :: WORD where "B = 0xefcdab89"
definition C :: WORD where "C = 0x98badcfe"
definition D :: WORD where "D = 0x10325476"

subsection \<open>part\_000: md5\<close>

text \<open>The body of \<^verbatim>\<open>for(int i = 0; i<64; i++)\<close> in \<^verbatim>\<open>md5\<close>.\<close>

definition md5_round :: "endian \<Rightarrow> block \<Rightarrow> nat \<Rightarrow> WORD list \<Rightarrow> WORD list" where
  "md5_round e M i X =
     (if i < 16 then
        FF X (AA ! i) (BB ! i) (CC ! i) (DD ! i) (threetwo e M (MM ! i)) (S ! i) (T ! i)
      else if i < 32 then
        GG X (AA ! i) (BB ! i) (CC ! i) (DD ! i) (threetwo e M (MM ! i)) (S ! i) (T ! i)
      else if i < 48 then
        HH X (AA ! i) (BB ! i) (CC ! i) (DD ! i) (threetwo e M (MM ! i)) (S ! i) (T ! i)
      else
        II X (AA ! i) (BB ! i) (CC ! i) (DD ! i) (threetwo e M (MM ! i)) (S ! i) (T ! i))"

text \<open>\<^verbatim>\<open>void md5(BLOCK *M, WORD *H)\<close>; the list \<open>X\<close> is the array behind \<^verbatim>\<open>H\<close>.\<close>

definition md5 :: "endian \<Rightarrow> block \<Rightarrow> WORD list \<Rightarrow> WORD list" where
  "md5 e M X =
     (let a = X ! 0; b = X ! 1; c = X ! 2; d = X ! 3;
          X = for_loop 0 64 (md5_round e M) X;
          X = X[0 := X ! 0 + a];
          X = X[1 := X ! 1 + b];
          X = X[2 := X ! 2 + c];
          X = X[3 := X ! 3 + d]
      in X)"

subsection \<open>part\_000: nextblock and main\<close>

text \<open>
  This \<^verbatim>\<open>nextblock\<close> calls \<^verbatim>\<open>fread\<close> and adds to \<^verbatim>\<open>*nobits\<close> before it looks at
  \<^verbatim>\<open>*status\<close>.
\<close>

definition nextblock_md5 ::
  "endian \<Rightarrow> block \<Rightarrow> BYTE list \<Rightarrow> u64 \<Rightarrow> PADFLAG \<Rightarrow> bool \<times> block \<times> BYTE list \<times> u64 \<times> PADFLAG" where
  "nextblock_md5 e M infile nobits status =
     (let (nobytesread, M, infile) = fread M 64 infile;
          nobits = nobits + of_nat nobytesread * 8
      in case status of
           FINISH \<Rightarrow> (False, M, infile, nobits, status)
         | PAD0 \<Rightarrow>
             (let M = for_loop 0 57 (\<lambda>i M. M[i := 0]) M;
                  M = set_sixfour e M 7 nobits
              in (True, M, infile, nobits, FINISH))
         | _ \<Rightarrow>
             if nobytesread < 56 then
               (let M = M[nobytesread := 0x80];
                    M = for_loop (nobytesread + 1) 56 (\<lambda>i M. M[i := 0]) M;
                    M = set_sixfour e M 7 nobits
                in (True, M, infile, nobits, FINISH))
             else if nobytesread < 64 then
               (let M = M[nobytesread := 0x80];
                    M = for_loop (nobytesread + 1) 64 (\<lambda>i M. M[i := 0]) M
                in (True, M, infile, nobits, PAD0))
             else (True, M, infile, nobits, status))"

function while_nextblock_md5 ::
  "endian \<Rightarrow> (block \<Rightarrow> 'h \<Rightarrow> 'h) \<Rightarrow> block \<Rightarrow> BYTE list \<Rightarrow> u64 \<Rightarrow> PADFLAG \<Rightarrow> 'h \<Rightarrow> 'h" where
  "while_nextblock_md5 e f M infile nobits status h =
     (case nextblock_md5 e M infile nobits status of
        (r, M', infile', nobits', status') \<Rightarrow>
          if r then while_nextblock_md5 e f M' infile' nobits' status' (f M' h) else h)"
  by pat_completeness auto
termination
proof (relation "measure (\<lambda>(e, f, M, infile, nobits, status, h). length infile + rank status)")
  show "wf (measure (\<lambda>(e, f, M, infile, nobits, status, h). length infile + rank status))"
    by simp
next
  fix e :: endian and f :: "block \<Rightarrow> 'h \<Rightarrow> 'h" and M infile nobits status and h :: 'h
    and r y M' z infile' w nobits' status'
  assume "(r, y) = nextblock_md5 e M infile nobits status" "(M', z) = y"
    "(infile', w) = z" "(nobits', status') = w" "r"
  then have "nextblock_md5 e M infile nobits status = (True, M', infile', nobits', status')"
    by simp
  then have "length infile' + rank status' < length infile + rank status"
    by (cases status) (auto simp: nextblock_md5_def fread_def Let_def split: if_splits)
  then show "((e, f, M', infile', nobits', status', f M' h), (e, f, M, infile, nobits, status, h))
      \<in> measure (\<lambda>(e, f, M, infile, nobits, status, h). length infile + rank status)"
    by simp
qed

declare while_nextblock_md5.simps [simp del]

text \<open>
  \<^verbatim>\<open>main\<close> of part\_000: \<^verbatim>\<open>WORD H[] = {A, B, C, D}\<close>, the loop, and nothing printed; the
  result is \<^verbatim>\<open>H\<close> when the loop ends.
\<close>

definition main_md5 :: "endian \<Rightarrow> block \<Rightarrow> BYTE list \<Rightarrow> WORD list" where
  "main_md5 e M0 infile = while_nextblock_md5 e (md5 e) M0 infile 0 READ [A, B, C, D]"

definition blocks_md5 :: "endian \<Rightarrow> block \<Rightarrow> BYTE list \<Rightarrow> block list" where
  "blocks_md5 e M0 infile = while_nextblock_md5 e (\<lambda>M bs. bs @ [M]) M0 infile 0 READ []"

subsection \<open>Program/md5.c: md5\<close>

text \<open>Statements run one after the other.\<close>

fun seq :: "('s \<Rightarrow> 's) list \<Rightarrow> 's \<Rightarrow> 's" where
  "seq [] s = s"
| "seq (f # fs) s = seq fs (f s)"

text \<open>
  The sixty-four macro calls of \<^verbatim>\<open>md5\<close> in md5.c, in the order of the source, on the locals
  \<^verbatim>\<open>a\<close>, \<^verbatim>\<open>b\<close>, \<^verbatim>\<open>c\<close>, \<^verbatim>\<open>d\<close> at positions 0, 1, 2, 3 of \<open>X\<close>:
  \<^verbatim>\<open>FF (d, a, b, c, M->threetwo[1], S[1], T[1])\<close> is \<open>FF X 3 0 1 2 (threetwo e M 1) (S ! 1) (T ! 1)\<close>.
\<close>

definition md5_Program_rounds :: "endian \<Rightarrow> block \<Rightarrow> (WORD list \<Rightarrow> WORD list) list" where
  "md5_Program_rounds e M = [
    (\<lambda>X. FF X 0 1 2 3 (threetwo e M 0) (S ! 0) (T ! 0)),
    (\<lambda>X. FF X 3 0 1 2 (threetwo e M 1) (S ! 1) (T ! 1)),
    (\<lambda>X. FF X 2 3 0 1 (threetwo e M 2) (S ! 2) (T ! 2)),
    (\<lambda>X. FF X 1 2 3 0 (threetwo e M 3) (S ! 3) (T ! 3)),
    (\<lambda>X. FF X 0 1 2 3 (threetwo e M 4) (S ! 4) (T ! 4)),
    (\<lambda>X. FF X 3 0 1 2 (threetwo e M 5) (S ! 5) (T ! 5)),
    (\<lambda>X. FF X 2 3 0 1 (threetwo e M 6) (S ! 6) (T ! 6)),
    (\<lambda>X. FF X 1 2 3 0 (threetwo e M 7) (S ! 7) (T ! 7)),
    (\<lambda>X. FF X 0 1 2 3 (threetwo e M 8) (S ! 8) (T ! 8)),
    (\<lambda>X. FF X 3 0 1 2 (threetwo e M 9) (S ! 9) (T ! 9)),
    (\<lambda>X. FF X 2 3 0 1 (threetwo e M 10) (S ! 10) (T ! 10)),
    (\<lambda>X. FF X 1 2 3 0 (threetwo e M 11) (S ! 11) (T ! 11)),
    (\<lambda>X. FF X 0 1 2 3 (threetwo e M 12) (S ! 12) (T ! 12)),
    (\<lambda>X. FF X 3 0 1 2 (threetwo e M 13) (S ! 13) (T ! 13)),
    (\<lambda>X. FF X 2 3 0 1 (threetwo e M 14) (S ! 14) (T ! 14)),
    (\<lambda>X. FF X 1 2 3 0 (threetwo e M 15) (S ! 15) (T ! 15)),
    (\<lambda>X. GG X 0 1 2 3 (threetwo e M 1) (S ! 16) (T ! 16)),
    (\<lambda>X. GG X 3 0 1 2 (threetwo e M 6) (S ! 17) (T ! 17)),
    (\<lambda>X. GG X 2 3 0 1 (threetwo e M 11) (S ! 18) (T ! 18)),
    (\<lambda>X. GG X 1 2 3 0 (threetwo e M 0) (S ! 19) (T ! 19)),
    (\<lambda>X. GG X 0 1 2 3 (threetwo e M 5) (S ! 20) (T ! 20)),
    (\<lambda>X. GG X 3 0 1 2 (threetwo e M 10) (S ! 21) (T ! 21)),
    (\<lambda>X. GG X 2 3 0 1 (threetwo e M 15) (S ! 22) (T ! 22)),
    (\<lambda>X. GG X 1 2 3 0 (threetwo e M 4) (S ! 23) (T ! 23)),
    (\<lambda>X. GG X 0 1 2 3 (threetwo e M 9) (S ! 24) (T ! 24)),
    (\<lambda>X. GG X 3 0 1 2 (threetwo e M 14) (S ! 25) (T ! 25)),
    (\<lambda>X. GG X 2 3 0 1 (threetwo e M 3) (S ! 26) (T ! 26)),
    (\<lambda>X. GG X 1 2 3 0 (threetwo e M 8) (S ! 27) (T ! 27)),
    (\<lambda>X. GG X 0 1 2 3 (threetwo e M 13) (S ! 28) (T ! 28)),
    (\<lambda>X. GG X 3 0 1 2 (threetwo e M 2) (S ! 29) (T ! 29)),
    (\<lambda>X. GG X 2 3 0 1 (threetwo e M 7) (S ! 30) (T ! 30)),
    (\<lambda>X. GG X 1 2 3 0 (threetwo e M 12) (S ! 31) (T ! 31)),
    (\<lambda>X. HH X 0 1 2 3 (threetwo e M 5) (S ! 32) (T ! 32)),
    (\<lambda>X. HH X 3 0 1 2 (threetwo e M 8) (S ! 33) (T ! 33)),
    (\<lambda>X. HH X 2 3 0 1 (threetwo e M 11) (S ! 34) (T ! 34)),
    (\<lambda>X. HH X 1 2 3 0 (threetwo e M 14) (S ! 35) (T ! 35)),
    (\<lambda>X. HH X 0 1 2 3 (threetwo e M 1) (S ! 36) (T ! 36)),
    (\<lambda>X. HH X 3 0 1 2 (threetwo e M 4) (S ! 37) (T ! 37)),
    (\<lambda>X. HH X 2 3 0 1 (threetwo e M 7) (S ! 38) (T ! 38)),
    (\<lambda>X. HH X 1 2 3 0 (threetwo e M 10) (S ! 39) (T ! 39)),
    (\<lambda>X. HH X 0 1 2 3 (threetwo e M 13) (S ! 40) (T ! 40)),
    (\<lambda>X. HH X 3 0 1 2 (threetwo e M 0) (S ! 41) (T ! 41)),
    (\<lambda>X. HH X 2 3 0 1 (threetwo e M 3) (S ! 42) (T ! 42)),
    (\<lambda>X. HH X 1 2 3 0 (threetwo e M 6) (S ! 43) (T ! 43)),
    (\<lambda>X. HH X 0 1 2 3 (threetwo e M 9) (S ! 44) (T ! 44)),
    (\<lambda>X. HH X 3 0 1 2 (threetwo e M 12) (S ! 45) (T ! 45)),
    (\<lambda>X. HH X 2 3 0 1 (threetwo e M 15) (S ! 46) (T ! 46)),
    (\<lambda>X. HH X 1 2 3 0 (threetwo e M 2) (S ! 47) (T ! 47)),
    (\<lambda>X. II X 0 1 2 3 (threetwo e M 0) (S ! 47) (T ! 48)),
    (\<lambda>X. II X 3 0 1 2 (threetwo e M 7) (S ! 47) (T ! 49)),
    (\<lambda>X. II X 2 3 0 1 (threetwo e M 14) (S ! 47) (T ! 50)),
    (\<lambda>X. II X 1 2 3 0 (threetwo e M 5) (S ! 47) (T ! 51)),
    (\<lambda>X. II X 0 1 2 3 (threetwo e M 12) (S ! 47) (T ! 52)),
    (\<lambda>X. II X 3 0 1 2 (threetwo e M 3) (S ! 47) (T ! 53)),
    (\<lambda>X. II X 2 3 0 1 (threetwo e M 10) (S ! 47) (T ! 54)),
    (\<lambda>X. II X 1 2 3 0 (threetwo e M 1) (S ! 47) (T ! 55)),
    (\<lambda>X. II X 0 1 2 3 (threetwo e M 8) (S ! 47) (T ! 56)),
    (\<lambda>X. II X 3 0 1 2 (threetwo e M 15) (S ! 47) (T ! 57)),
    (\<lambda>X. II X 2 3 0 1 (threetwo e M 6) (S ! 47) (T ! 58)),
    (\<lambda>X. II X 1 2 3 0 (threetwo e M 13) (S ! 47) (T ! 59)),
    (\<lambda>X. II X 0 1 2 3 (threetwo e M 4) (S ! 47) (T ! 60)),
    (\<lambda>X. II X 3 0 1 2 (threetwo e M 11) (S ! 47) (T ! 61)),
    (\<lambda>X. II X 2 3 0 1 (threetwo e M 2) (S ! 47) (T ! 62)),
    (\<lambda>X. II X 1 2 3 0 (threetwo e M 9) (S ! 47) (T ! 63))]"

text \<open>
  \<^verbatim>\<open>void md5(UINT4 *state, BLOCK *M)\<close> of md5.c. \<^verbatim>\<open>UINT4\<close> is \<^verbatim>\<open>unsigned long\<close>, of a width
  the platform chooses; the locals are \<^verbatim>\<open>uint32_t\<close>, so the assignment \<^verbatim>\<open>a = state[0]\<close>
  keeps the low 32 bits. The function stores into the global \<^verbatim>\<open>uint32_t output[4]\<close> and
  nowhere else: the model takes the global and returns the array behind \<^verbatim>\<open>state\<close>, as it
  was, together with the new global.
\<close>

definition md5_Program ::
  "endian \<Rightarrow> 'a::len word list \<Rightarrow> block \<Rightarrow> WORD list \<Rightarrow> 'a word list \<times> WORD list" where
  "md5_Program e state M output =
     (let X = [ucast (state ! 0), ucast (state ! 1), ucast (state ! 2), ucast (state ! 3)];
          X = seq (md5_Program_rounds e M) X;
          output = output[0 := output ! 0 + X ! 0];
          output = output[1 := output ! 1 + X ! 1];
          output = output[2 := output ! 2 + X ! 2];
          output = output[3 := output ! 3 + X ! 3]
      in (state, output))"

subsection \<open>Program/md5.c: pad and main\<close>

definition pad ::
  "endian \<Rightarrow> block \<Rightarrow> BYTE list \<Rightarrow> u64 \<Rightarrow> PADFLAG \<Rightarrow> bool \<times> block \<times> BYTE list \<times> u64 \<times> PADFLAG" where
  "pad e M infile nobits status =
     (case status of
        FINISH \<Rightarrow> (False, M, infile, nobits, status)
      | PAD0 \<Rightarrow>
          (let M = for_loop 0 56 (\<lambda>i M. M[i := 0x00]) M;
               M = set_sixfour e M 7 nobits
           in (True, M, infile, nobits, FINISH))
      | _ \<Rightarrow>
          (let (nobytesread, M, infile) = fread M 64 infile;
               nobits = nobits + 8 * of_nat nobytesread
           in if nobytesread < 56 then
                (let M = M[nobytesread := 0x80];
                     M = for_loop (nobytesread + 1) 56 (\<lambda>i M. M[i := 0x00]) M;
                     M = set_sixfour e M 7 nobits
                 in (True, M, infile, nobits, FINISH))
              else if nobytesread < 64 then
                (let M = M[nobytesread := 0x80];
                     M = for_loop (nobytesread + 1) 64 (\<lambda>i M. M[i := 0x00]) M
                 in (True, M, infile, nobits, PAD0))
              else (True, M, infile, nobits, status)))"

function while_pad ::
  "endian \<Rightarrow> (block \<Rightarrow> 'h \<Rightarrow> 'h) \<Rightarrow> block \<Rightarrow> BYTE list \<Rightarrow> u64 \<Rightarrow> PADFLAG \<Rightarrow> 'h \<Rightarrow> 'h" where
  "while_pad e f M infile nobits status h =
     (case pad e M infile nobits status of
        (r, M', infile', nobits', status') \<Rightarrow>
          if r then while_pad e f M' infile' nobits' status' (f M' h) else h)"
  by pat_completeness auto
termination
proof (relation "measure (\<lambda>(e, f, M, infile, nobits, status, h). length infile + rank status)")
  show "wf (measure (\<lambda>(e, f, M, infile, nobits, status, h). length infile + rank status))"
    by simp
next
  fix e :: endian and f :: "block \<Rightarrow> 'h \<Rightarrow> 'h" and M infile nobits status and h :: 'h
    and r y M' z infile' w nobits' status'
  assume "(r, y) = pad e M infile nobits status" "(M', z) = y"
    "(infile', w) = z" "(nobits', status') = w" "r"
  then have "pad e M infile nobits status = (True, M', infile', nobits', status')"
    by simp
  then have "length infile' + rank status' < length infile + rank status"
    by (cases status) (auto simp: pad_def fread_def Let_def split: if_splits)
  then show "((e, f, M', infile', nobits', status', f M' h), (e, f, M, infile, nobits, status, h))
      \<in> measure (\<lambda>(e, f, M, infile, nobits, status, h). length infile + rank status)"
    by simp
qed

declare while_pad.simps [simp del]

text \<open>
  \<^verbatim>\<open>main\<close> of md5.c: the body of its loop calls \<^verbatim>\<open>MD5_Prepare\<close>, whose body is empty, and
  the call of \<^verbatim>\<open>md5\<close> is commented out; then the four words of the global \<^verbatim>\<open>output\<close> are
  printed. A global without initialiser starts at zero.
\<close>

definition main_Program :: "endian \<Rightarrow> block \<Rightarrow> BYTE list \<Rightarrow> WORD list" where
  "main_Program e M0 infile = while_pad e (\<lambda>M output. output) M0 infile 0 READ [0, 0, 0, 0]"

definition blocks_Program :: "endian \<Rightarrow> block \<Rightarrow> BYTE list \<Rightarrow> block list" where
  "blocks_Program e M0 infile = while_pad e (\<lambda>M bs. bs @ [M]) M0 infile 0 READ []"

text \<open>
  The only block of the padded empty message, on which the compression functions are run
  below: \<open>0x80\<close>, zero padding and a zero length field.
\<close>

definition empty_block :: block where
  "empty_block = 0x80 # replicate 63 0"

section \<open>Loops\<close>

lemma for_loop_stop: "hi \<le> i \<Longrightarrow> for_loop i hi body s = s"
  by (simp add: for_loop.simps)

lemma for_loop_step: "i < hi \<Longrightarrow> for_loop i hi body s = for_loop (Suc i) hi body (body i s)"
  by (subst for_loop.simps) simp

lemma for_loop_fold: "for_loop i hi body s = fold body [i..<hi] s"
proof (induction i hi body s rule: for_loop.induct)
  case (1 i hi body s)
  show ?case
  proof (cases "i < hi")
    case True
    with 1 show ?thesis by (simp add: for_loop_step upt_rec)
  next
    case False
    then show ?thesis by (simp add: for_loop_stop)
  qed
qed

text \<open>A loop that stores the same byte at every index of a range.\<close>

lemma zero_fill:
  "lo \<le> hi \<Longrightarrow> hi \<le> length M \<Longrightarrow>
   for_loop lo hi (\<lambda>i M. M[i := v]) M = take lo M @ replicate (hi - lo) v @ drop hi M"
proof (induction "hi - lo" arbitrary: lo M)
  case 0
  then show ?case by (simp add: for_loop_stop)
next
  case (Suc k)
  then have lt: "lo < hi" and k: "k = hi - Suc lo" by auto
  have len: "lo < length M" using lt Suc.prems by simp
  have "for_loop lo hi (\<lambda>i M. M[i := v]) M = for_loop (Suc lo) hi (\<lambda>i M. M[i := v]) (M[lo := v])"
    using lt by (simp add: for_loop_step)
  also have "\<dots> = take (Suc lo) (M[lo := v]) @ replicate (hi - Suc lo) v @ drop hi (M[lo := v])"
    using Suc.hyps(1) [OF k] lt Suc.prems by simp
  also have "take (Suc lo) (M[lo := v]) = take lo M @ [v]"
    using len by (simp add: take_Suc_conv_app_nth)
  also have "drop hi (M[lo := v]) = drop hi M"
    using lt by simp
  finally show ?case
    using lt by (simp add: replicate_app_Cons_same Suc_diff_Suc flip: replicate_Suc)
qed

text \<open>The ranges of the round loops, opened far enough for the simplifier to go on by itself.\<close>

lemma upt_0_64: "[0..<64] = 0 # 1 # [2..<64]"
  by (simp add: upt_rec)

lemma upt_0_48: "[0..<48] = 0 # 1 # [2..<48]"
  by (simp add: upt_rec)

lemma upt_0_65: "[0..<65] = [0..<64] @ [64]"
  by (simp add: upt_rec)

section \<open>Bytes and words\<close>

lemma length_le_bytes [simp]: "length (le_bytes n w) = n"
  by (induction n arbitrary: w) auto

lemma length_mem_bytes [simp]: "length (mem_bytes e n w) = n"
  by (cases e) (simp_all add: mem_bytes_def)

lemma le_bytes_8:
  "le_bytes 8 w = [ucast w, ucast (drop_bit 8 w), ucast (drop_bit 16 w), ucast (drop_bit 24 w),
     ucast (drop_bit 32 w), ucast (drop_bit 40 w), ucast (drop_bit 48 w), ucast (drop_bit 56 w)]"
  by (simp add: eval_nat_numeral drop_bit_drop_bit)

text \<open>Eight bytes written from a 64-bit word read back as that word, in either byte order.\<close>

lemma bit_le_word_le_bytes:
  "bit (le_word (le_bytes n w) :: 'a::len word) i \<longleftrightarrow> i < 8 * n \<and> bit (w :: 'a word) i"
proof (induction n arbitrary: w i)
  case 0
  then show ?case by simp
next
  case (Suc n)
  show ?case
  proof (cases "i < 8")
    case True
    then show ?thesis
      by (auto simp: bit_simps Suc.IH dest: bit_imp_le_length)
  next
    case False
    then have "8 + (i - 8) = i" by simp
    with False show ?thesis
      by (auto simp: bit_simps Suc.IH dest: bit_imp_le_length)
  qed
qed

lemma le_word_le_bytes_8: "le_word (le_bytes 8 w) = (w :: u64)"
  by (rule bit_word_eqI) (simp add: bit_le_word_le_bytes)

lemma mem_word_mem_bytes: "mem_word e (mem_bytes e 8 w) = (w :: u64)"
  by (cases e) (simp_all add: mem_word_def mem_bytes_def le_word_le_bytes_8)

lemma replicate_numeral: "replicate (numeral v) x = x # replicate (numeral v - 1) x"
  by (simp add: numeral_eq_Suc)

lemma mem_bytes_0: "mem_bytes e 8 (0::u64) = replicate 8 0"
  by (cases e) (simp_all add: mem_bytes_def le_bytes_8 replicate_numeral)

lemma take1_update: "xs \<noteq> [] \<Longrightarrow> take (Suc 0) (xs[0 := v]) = [v]"
  by (cases xs) auto

lemma drop_append_length: "length ys = n \<Longrightarrow> drop (length (xs @ ys) - n) (xs @ ys) = ys"
  by simp

lemma list4: "length X = 4 \<Longrightarrow> X = [X ! 0, X ! 1, X ! 2, X ! 3]"
  by (auto simp: eval_nat_numeral length_Suc_conv)

lemma list8: "length H = 8 \<Longrightarrow> H = [H ! 0, H ! 1, H ! 2, H ! 3, H ! 4, H ! 5, H ! 6, H ! 7]"
  by (auto simp: eval_nat_numeral length_Suc_conv)

section \<open>The padders, case by case\<close>

subsection \<open>part\_000\<close>

lemma nextblock_md5_full:
  "length M = 64 \<Longrightarrow> 64 \<le> length infile \<Longrightarrow> status \<noteq> FINISH \<Longrightarrow> status \<noteq> PAD0 \<Longrightarrow>
   nextblock_md5 e M infile nobits status = (True, take 64 infile, drop 64 infile, nobits + 512, status)"
  by (cases status) (simp_all add: nextblock_md5_def fread_def Let_def)

lemma nextblock_md5_short:
  assumes "length M = 64" "length infile < 56" "status \<noteq> FINISH" "status \<noteq> PAD0"
  shows "nextblock_md5 e M infile nobits status =
    (True, infile @ 0x80 # replicate (55 - length infile) 0 @ mem_bytes e 8 (nobits + of_nat (length infile) * 8),
     [], nobits + of_nat (length infile) * 8, FINISH)"
proof -
  have *: "56 - length infile = Suc (55 - length infile)"
    using assms by simp
  show ?thesis
    using assms
    by (cases status)
      (simp_all add: nextblock_md5_def fread_def Let_def zero_fill set_sixfour_def
        list_update_append take1_update *)
qed

lemma nextblock_md5_mid:
  assumes "length M = 64" "56 \<le> length infile" "length infile < 64" "status \<noteq> FINISH" "status \<noteq> PAD0"
  shows "nextblock_md5 e M infile nobits status =
    (True, infile @ 0x80 # replicate (63 - length infile) 0,
     [], nobits + of_nat (length infile) * 8, PAD0)"
  using assms
  by (cases status) (simp_all add: nextblock_md5_def fread_def Let_def zero_fill set_sixfour_def list_update_append take1_update)

lemma nextblock_md5_PAD0:
  assumes "length M = 64"
  shows "nextblock_md5 e M [] nobits PAD0 = (True, replicate 56 0 @ mem_bytes e 8 nobits, [], nobits, FINISH)"
  using assms
  by (simp add: nextblock_md5_def fread_def Let_def zero_fill set_sixfour_def)

lemma nextblock_md5_FINISH:
  "fst (nextblock_md5 e M infile nobits FINISH) = False"
  by (simp add: nextblock_md5_def fread_def Let_def)

lemma while_nextblock_md5_FINISH: "while_nextblock_md5 e f M infile nobits FINISH h = h"
  by (simp add: while_nextblock_md5.simps nextblock_md5_def fread_def Let_def)

lemma while_nextblock_md5_step:
  "nextblock_md5 e M infile nobits status = (True, M', infile', nobits', status') \<Longrightarrow>
   while_nextblock_md5 e f M infile nobits status h =
   while_nextblock_md5 e f M' infile' nobits' status' (f M' h)"
  by (subst while_nextblock_md5.simps) simp

lemma padded_md5:
  "length M = 64 \<Longrightarrow>
   concat (while_nextblock_md5 e (\<lambda>M bs. bs @ [M]) M infile nobits READ acc) =
   concat acc @ infile @
   0x80 # replicate (if length infile mod 64 < 56 then 55 - length infile mod 64
                     else 119 - length infile mod 64) 0 @
   mem_bytes e 8 (nobits + of_nat (length infile) * 8)"
proof (induction infile arbitrary: M nobits acc rule: length_induct)
  case (1 infile)
  let ?n = "length infile"
  consider (full) "64 \<le> ?n" | (short) "?n < 56" | (mid) "56 \<le> ?n" "?n < 64"
    by linarith
  then show ?case
  proof cases
    case full
    have len: "length (drop 64 infile) < ?n" using full by simp
    have n: "?n = (?n - 64) + 64" using full by simp
    have m: "(?n - 64) mod 64 = ?n mod 64"
      using full by (simp add: le_mod_geq)
    have w: "nobits + 512 + of_nat (?n - 64) * 8 = nobits + of_nat ?n * (8 :: u64)"
      by (subst (2) n) (simp only: of_nat_add, simp)
    have "concat (while_nextblock_md5 e (\<lambda>M bs. bs @ [M]) M infile nobits READ acc) =
          concat (while_nextblock_md5 e (\<lambda>M bs. bs @ [M]) (take 64 infile) (drop 64 infile)
                   (nobits + 512) READ (acc @ [take 64 infile]))"
      using 1(2) full by (simp add: while_nextblock_md5_step [OF nextblock_md5_full])
    also have "\<dots> = concat (acc @ [take 64 infile]) @ drop 64 infile @
        0x80 # replicate (if length (drop 64 infile) mod 64 < 56 then 55 - length (drop 64 infile) mod 64
                     else 119 - length (drop 64 infile) mod 64) 0 @
        mem_bytes e 8 (nobits + 512 + of_nat (length (drop 64 infile)) * 8)"
      using 1(1) len full by simp
    finally show ?thesis
      using m w by simp
  next
    case short
    have "while_nextblock_md5 e (\<lambda>M bs. bs @ [M]) M infile nobits READ acc =
          acc @ [infile @ 0x80 # replicate (55 - ?n) 0 @ mem_bytes e 8 (nobits + of_nat ?n * 8)]"
      using 1(2) short
      by (simp add: while_nextblock_md5_step [OF nextblock_md5_short] while_nextblock_md5_FINISH)
    then show ?thesis using short by simp
  next
    case mid
    have "while_nextblock_md5 e (\<lambda>M bs. bs @ [M]) M infile nobits READ acc =
          acc @ [infile @ 0x80 # replicate (63 - ?n) 0,
                 replicate 56 0 @ mem_bytes e 8 (nobits + of_nat ?n * 8)]"
      using 1(2) mid
      by (simp add: while_nextblock_md5_step [OF nextblock_md5_mid]
          while_nextblock_md5_step [OF nextblock_md5_PAD0] while_nextblock_md5_FINISH)
    moreover have "(63 - ?n) + 56 = 119 - ?n" using mid by simp
    ultimately show ?thesis using mid by (simp flip: replicate_add)
  qed
qed

subsection \<open>Finalizing\_padding.c\<close>

lemma nextblock_full:
  "length M = 64 \<Longrightarrow> 64 \<le> length infile \<Longrightarrow>
   nextblock e M infile nobits READ = (True, take 64 infile, drop 64 infile, nobits, READ)"
  by (simp add: nextblock_def fread_def Let_def)

lemma nextblock_short:
  assumes "length M = 64" "length infile < 56"
  shows "nextblock e M infile nobits READ =
    (True, infile @ 0x80 # replicate (55 - length infile) 0 @ mem_bytes e 8 nobits,
     [], nobits, FINISH)"
proof -
  have *: "56 - length infile = Suc (55 - length infile)"
    using assms by simp
  show ?thesis
    using assms
    by (simp add: nextblock_def fread_def Let_def zero_fill set_sixfour_def
        list_update_append take1_update *)
qed

lemma nextblock_mid:
  assumes "length M = 64" "56 \<le> length infile" "length infile < 64"
  shows "nextblock e M infile nobits READ =
    (True, infile @ 0x80 # replicate (63 - length infile) 0, [], nobits, PAD0)"
  using assms
  by (simp add: nextblock_def fread_def Let_def zero_fill list_update_append take1_update)

lemma nextblock_PAD0:
  assumes "length M = 64"
  shows "nextblock e M infile nobits PAD0 =
    (True, replicate 56 0 @ mem_bytes e 8 nobits, infile, nobits, FINISH)"
  using assms
  by (simp add: nextblock_def Let_def zero_fill set_sixfour_def)

lemma while_nextblock_FINISH: "while_nextblock e f M infile nobits FINISH h = h"
  by (simp add: while_nextblock.simps nextblock_def)

lemma while_nextblock_step:
  "nextblock e M infile nobits status = (True, M', infile', nobits', status') \<Longrightarrow>
   while_nextblock e f M infile nobits status h =
   while_nextblock e f M' infile' nobits' status' (f M' h)"
  by (subst while_nextblock.simps) simp

lemma padded:
  "length M = 64 \<Longrightarrow>
   concat (while_nextblock e (\<lambda>M bs. bs @ [M]) M infile nobits READ acc) =
   concat acc @ infile @
   0x80 # replicate (if length infile mod 64 < 56 then 55 - length infile mod 64
                     else 119 - length infile mod 64) 0 @
   mem_bytes e 8 nobits"
proof (induction infile arbitrary: M acc rule: length_induct)
  case (1 infile)
  let ?n = "length infile"
  consider (full) "64 \<le> ?n" | (short) "?n < 56" | (mid) "56 \<le> ?n" "?n < 64"
    by linarith
  then show ?case
  proof cases
    case full
    have len: "length (drop 64 infile) < ?n" using full by simp
    have m: "(?n - 64) mod 64 = ?n mod 64"
      using full by (simp add: le_mod_geq)
    have "concat (while_nextblock e (\<lambda>M bs. bs @ [M]) M infile nobits READ acc) =
          concat (while_nextblock e (\<lambda>M bs. bs @ [M]) (take 64 infile) (drop 64 infile)
                   nobits READ (acc @ [take 64 infile]))"
      using 1(2) full by (simp add: while_nextblock_step [OF nextblock_full])
    also have "\<dots> = concat (acc @ [take 64 infile]) @ drop 64 infile @
        0x80 # replicate (if length (drop 64 infile) mod 64 < 56
                          then 55 - length (drop 64 infile) mod 64
                          else 119 - length (drop 64 infile) mod 64) 0 @
        mem_bytes e 8 nobits"
      using 1(1) len full by simp
    finally show ?thesis
      using m by simp
  next
    case short
    have "while_nextblock e (\<lambda>M bs. bs @ [M]) M infile nobits READ acc =
          acc @ [infile @ 0x80 # replicate (55 - ?n) 0 @ mem_bytes e 8 nobits]"
      using 1(2) short
      by (simp add: while_nextblock_step [OF nextblock_short] while_nextblock_FINISH)
    then show ?thesis using short by simp
  next
    case mid
    have "while_nextblock e (\<lambda>M bs. bs @ [M]) M infile nobits READ acc =
          acc @ [infile @ 0x80 # replicate (63 - ?n) 0, replicate 56 0 @ mem_bytes e 8 nobits]"
      using 1(2) mid
      by (simp add: while_nextblock_step [OF nextblock_mid]
          while_nextblock_step [OF nextblock_PAD0] while_nextblock_FINISH)
    moreover have "(63 - ?n) + 56 = 119 - ?n" using mid by simp
    ultimately show ?thesis using mid by (simp flip: replicate_add)
  qed
qed

subsection \<open>Program/md5.c\<close>

lemma pad_short:
  assumes "length M = 64" "length infile < 56" "status \<noteq> FINISH" "status \<noteq> PAD0"
  shows "pad e M infile nobits status =
    (True, infile @ 0x80 # replicate (55 - length infile) 0 @
           mem_bytes e 8 (nobits + 8 * of_nat (length infile)),
     [], nobits + 8 * of_nat (length infile), FINISH)"
proof -
  have *: "56 - length infile = Suc (55 - length infile)"
    using assms by simp
  show ?thesis
    using assms
    by (cases status)
      (simp_all add: pad_def fread_def Let_def zero_fill set_sixfour_def
        list_update_append take1_update *)
qed

lemma while_pad_FINISH: "while_pad e f M infile nobits FINISH h = h"
  by (simp add: while_pad.simps pad_def)

lemma while_pad_step:
  "pad e M infile nobits status = (True, M', infile', nobits', status') \<Longrightarrow>
   while_pad e f M infile nobits status h = while_pad e f M' infile' nobits' status' (f M' h)"
  by (subst while_pad.simps) simp

section \<open>nexthash\<close>

text \<open>The schedule and the reads of the round loop.\<close>

lemma length_K: "length K = 64"
  by (simp add: K_def)

lemma W_copy_loop:
  "n \<le> length W \<Longrightarrow>
   fold (W_copy e M) [0..<n] (W, fs) = (map (\<lambda>t. Some (threetwo e M t)) [0..<n] @ drop n W, fs)"
proof (induction n)
  case 0
  then show ?case by simp
next
  case (Suc n)
  then have "n < length W" by simp
  then have "(drop n W)[0 := x] = x # drop (Suc n) W" for x
    by (metis Cons_nth_drop_Suc list_update_code(2))
  with Suc show ?case
    by (simp add: W_copy_def list_update_append)
qed

lemma schedule_eq:
  "schedule gb e M = (map (\<lambda>t. Some (threetwo e M t)) [0..<16] @ replicate 48 None, [])"
proof -
  have "for_loop 0 16 (W_copy e M) (replicate 64 None, []) =
        (map (\<lambda>t. Some (threetwo e M t)) [0..<16] @ drop 16 (replicate 64 None), [])"
    unfolding for_loop_fold by (rule W_copy_loop) simp
  then show ?thesis
    by (simp add: schedule_def for_loop_stop)
qed

lemma W_read_schedule:
  "t < 16 \<Longrightarrow> W_read gb (fst (schedule gb e M)) t = (threetwo e M t, [])"
  "16 \<le> t \<Longrightarrow> t < 64 \<Longrightarrow> W_read gb (fst (schedule gb e M)) t = (W_mem gb t, [W_uninitialised t])"
  "64 \<le> t \<Longrightarrow> W_read gb (fst (schedule gb e M)) t = (W_mem gb t, [W_out_of_bounds t])"
  by (simp_all add: schedule_eq W_read_def nth_append)

lemma K_read_cases:
  "t < 64 \<Longrightarrow> K_read gb t = (K ! t, [])"
  "64 \<le> t \<Longrightarrow> K_read gb t = (K_mem gb t, [K_out_of_bounds t])"
  by (simp_all add: K_read_def length_K)

lemma round_faults:
  "snd (snd (nexthash_round gb W t (r, H, fs))) = fs @ snd (K_read gb t) @ snd (W_read gb W t)"
  by (cases r) (simp add: nexthash_round_def Let_def split: prod.splits)

lemma rounds_faults:
  "snd (snd (fold (nexthash_round gb W) ts s)) =
   snd (snd s) @ concat (map (\<lambda>t. snd (K_read gb t) @ snd (W_read gb W t)) ts)"
proof (induction ts arbitrary: s)
  case Nil
  then show ?case by simp
next
  case (Cons t ts)
  obtain r H fs where s: "s = (r, H, fs)" by (cases s) auto
  show ?case
    by (simp add: Cons.IH s round_faults)
qed

lemma nexthash_faults:
  "snd (nexthash gb e M H) =
   concat (map (\<lambda>t. snd (K_read gb t) @ snd (W_read gb (fst (schedule gb e M)) t)) [0..<65])"
proof -
  obtain W where W: "schedule gb e M = (W, [])"
    by (simp add: schedule_eq)
  obtain r' H' fs' where f: "fold (nexthash_round gb W) [0..<65]
      ((H ! 0, H ! 1, H ! 2, H ! 3, H ! 4, H ! 5, H ! 6, H ! 7), H, []) = (r', H', fs')"
    by (metis prod_cases3)
  have "fs' = concat (map (\<lambda>t. snd (K_read gb t) @ snd (W_read gb W t)) [0..<65])"
    using rounds_faults [of gb W "[0..<65]"
        "((H ! 0, H ! 1, H ! 2, H ! 3, H ! 4, H ! 5, H ! 6, H ! 7), H, [])"]
    by (simp only: f snd_conv append_Nil)
  moreover have "nexthash gb e M H = (H', fs')"
    unfolding nexthash_def for_loop_fold by (simp only: W f Let_def prod.case)
  ultimately show ?thesis
    by (simp only: W fst_conv snd_conv)
qed

lemma nexthash_faults_eq:
  "snd (nexthash gb e M H) =
   map W_uninitialised [16..<64] @ [K_out_of_bounds 64, W_out_of_bounds 64]"
proof -
  let ?F = "\<lambda>t. snd (K_read gb t) @ snd (W_read gb (fst (schedule gb e M)) t)"
  have split: "[0..<65] = [0..<16] @ [16..<64] @ [64]"
    by (simp add: upt_rec)
  have a: "map ?F [0..<16] = map (\<lambda>t. []) [0..<16]"
  proof (rule map_cong [OF refl])
    fix t assume "t \<in> set [0..<16]"
    then have "t < 16" by (simp only: set_upt atLeastLessThan_iff)
    then show "?F t = []" by (simp add: K_read_cases W_read_schedule)
  qed
  have b: "map ?F [16..<64] = map (\<lambda>t. [W_uninitialised t]) [16..<64]"
  proof (rule map_cong [OF refl])
    fix t assume "t \<in> set [16..<64]"
    then have "16 \<le> t" "t < 64" by (simp_all only: set_upt atLeastLessThan_iff)
    then show "?F t = [W_uninitialised t]" by (simp add: K_read_cases W_read_schedule)
  qed
  have c: "?F 64 = [K_out_of_bounds 64, W_out_of_bounds 64]"
    by (simp add: K_read_cases W_read_schedule)
  have "concat (map ?F [0..<65]) =
        concat (map ?F [0..<16]) @ concat (map ?F [16..<64]) @ ?F 64"
    by (simp only: split map_append concat_append list.map concat.simps append_Nil2)
  also have "\<dots> = map W_uninitialised [16..<64] @ [K_out_of_bounds 64, W_out_of_bounds 64]"
    by (simp only: a b c) (simp add: concat_map_singleton)
  finally show ?thesis
    by (simp only: nexthash_faults)
qed

text \<open>What a pass of the round loop does to \<^verbatim>\<open>H\<close>, and what all passes together keep.\<close>

lemma round_H:
  assumes "length H = 8"
  shows "fst (snd (nexthash_round gb W t (r, H, fs))) =
    (case fst (nexthash_round gb W t (r, H, fs)) of (a, b, c, d, e, f, g, h) \<Rightarrow>
       [H ! 0 + a, H ! 1 + b, H ! 2 + c, H ! 3 + d, H ! 4 + e, H ! 5 + f, H ! 6 + g, H ! 7 + f])"
proof -
  obtain h0 h1 h2 h3 h4 h5 h6 h7 where H: "H = [h0, h1, h2, h3, h4, h5, h6, h7]"
    using list8 [OF assms] by blast
  show ?thesis
    by (cases r) (simp add: H nexthash_round_def Let_def split: prod.splits)
qed

lemma round_inv:
  assumes "length H = 8"
  shows "length (fst (snd (nexthash_round gb W t (r, H, fs)))) = 8 \<and>
    fst (snd (nexthash_round gb W t (r, H, fs))) ! 7 - fst (snd (nexthash_round gb W t (r, H, fs))) ! 5 =
    H ! 7 - H ! 5"
  by (simp add: round_H [OF assms] split: prod.splits)

lemma rounds_inv:
  "length (fst (snd s)) = 8 \<Longrightarrow>
   length (fst (snd (fold (nexthash_round gb W) ts s))) = 8 \<and>
   fst (snd (fold (nexthash_round gb W) ts s)) ! 7 - fst (snd (fold (nexthash_round gb W) ts s)) ! 5 =
   fst (snd s) ! 7 - fst (snd s) ! 5"
proof (induction ts arbitrary: s)
  case Nil
  then show ?case by simp
next
  case (Cons t ts)
  obtain r H fs where s: "s = (r, H, fs)" by (cases s) auto
  with Cons.prems have len: "length H = 8" by simp
  show ?case
    using Cons.IH [of "nexthash_round gb W t (r, H, fs)"] round_inv [OF len, of gb W t r fs]
    by (simp add: s)
qed

lemma nexthash_inv:
  assumes "length H = 8"
  shows "length (fst (nexthash gb e M H)) = 8 \<and>
    fst (nexthash gb e M H) ! 7 - fst (nexthash gb e M H) ! 5 = H ! 7 - H ! 5"
proof -
  obtain W where W: "schedule gb e M = (W, [])"
    by (simp add: schedule_eq)
  let ?s = "((H ! 0, H ! 1, H ! 2, H ! 3, H ! 4, H ! 5, H ! 6, H ! 7), H, [])"
  obtain r' H' fs' where f: "fold (nexthash_round gb W) [0..<65] ?s = (r', H', fs')"
    by (metis prod_cases3)
  have "nexthash gb e M H = (H', fs')"
    unfolding nexthash_def for_loop_fold by (simp only: W f Let_def prod.case)
  moreover have "length H' = 8 \<and> H' ! 7 - H' ! 5 = H ! 7 - H ! 5"
    using rounds_inv [of ?s gb W "[0..<65]"] assms by (simp only: f fst_conv snd_conv)
  ultimately show ?thesis by simp
qed

lemma main_empty:
  "\<exists>M. main gb e M0 [] = nexthash gb e M H_init"
proof -
  obtain M where "nextblock e M0 [] 0 READ = (True, M, [], 0, FINISH)"
    by (simp add: nextblock_def fread_def Let_def)
  then have "main gb e M0 [] = nexthash gb e M H_init"
    by (simp add: main_def while_nextblock_step while_nextblock_FINISH split: prod.splits)
  then show ?thesis ..
qed

text \<open>The word read from \<^verbatim>\<open>K[64]\<close> goes into \<^verbatim>\<open>H[0]\<close>.\<close>

lemma round_H0:
  assumes "length H = 8"
  shows "fst (snd (nexthash_round gb W t ((a, b, c, d, e, f, g, h), H, fs))) ! 0 =
    H ! 0 + (h + Sig1 e + Ch e f g + fst (K_read gb t) + fst (W_read gb W t) + (Sig0 a + Maj a b c))"
proof -
  obtain h0 h1 h2 h3 h4 h5 h6 h7 where H: "H = [h0, h1, h2, h3, h4, h5, h6, h7]"
    using list8 [OF assms] by blast
  show ?thesis
    by (simp add: H nexthash_round_def Let_def split: prod.splits)
qed

lemma nexthash_K_mem:
  assumes "length H = 8"
  shows "fst (nexthash (gb\<lparr>K_mem := \<lambda>t. K_mem gb t + 1\<rparr>) e M H) ! 0 = fst (nexthash gb e M H) ! 0 + 1"
proof -
  let ?gb = "gb\<lparr>K_mem := \<lambda>t. K_mem gb t + 1\<rparr>"
  let ?s = "((H ! 0, H ! 1, H ! 2, H ! 3, H ! 4, H ! 5, H ! 6, H ! 7), H, [])"
  obtain W where W: "schedule gb e M = (W, [])" "schedule ?gb e M = (W, [])"
    by (simp add: schedule_eq)
  have wr: "W_read ?gb W t = W_read gb W t" for t
    by (simp add: W_read_def split: option.splits)
  have kr: "K_read ?gb t = K_read gb t" if "t < 64" for t
    using that by (simp add: K_read_cases)
  have same: "nexthash_round ?gb W t = nexthash_round gb W t" if "t < 64" for t
    using that by (simp add: nexthash_round_def wr kr)
  have f64: "fold (nexthash_round ?gb W) [0..<64] ?s = fold (nexthash_round gb W) [0..<64] ?s"
    by (rule fold_cong) (simp_all only: same set_upt atLeastLessThan_iff)
  obtain a b c d e' f g h H64 fs64 where
    s64: "fold (nexthash_round gb W) [0..<64] ?s = ((a, b, c, d, e', f, g, h), H64, fs64)"
    by (metis prod_cases3 prod_cases5)
  have len: "length H64 = 8"
    using rounds_inv [of ?s gb W "[0..<64]"] assms by (simp only: s64 fst_conv snd_conv)
  have n: "fst (nexthash gb' e M H) =
      fst (snd (nexthash_round gb' W 64 (fold (nexthash_round gb' W) [0..<64] ?s)))"
    if "schedule gb' e M = (W, [])" for gb'
    unfolding nexthash_def for_loop_fold upt_0_65
    by (simp only: that Let_def prod.case fold_append fold.simps comp_def id_def split: prod.splits)
      simp
  have "fst (nexthash ?gb e M H) ! 0 =
      fst (snd (nexthash_round ?gb W 64 ((a, b, c, d, e', f, g, h), H64, fs64))) ! 0"
    by (simp only: n [OF W(2)] f64 s64)
  also have "\<dots> = fst (snd (nexthash_round gb W 64 ((a, b, c, d, e', f, g, h), H64, fs64))) ! 0 + 1"
    by (simp add: round_H0 [OF len] K_read_cases wr)
  also have "fst (snd (nexthash_round gb W 64 ((a, b, c, d, e', f, g, h), H64, fs64))) =
      fst (nexthash gb e M H)"
    by (simp only: n [OF W(1)] s64)
  finally show ?thesis .
qed

section \<open>The MD5 compression functions\<close>

text \<open>\<^verbatim>\<open>md5\<close> of part\_000 adds the words that \<^verbatim>\<open>H\<close> held before the rounds to the words it holds after them.\<close>

lemma length_md5_round [simp]: "length (md5_round e M i X) = length X"
  by (simp add: md5_round_def FF_def GG_def HH_def II_def Let_def)

lemma length_md5_rounds [simp]: "length (fold (md5_round e M) ts X) = length X"
  by (induction ts arbitrary: X) simp_all

lemma md5_adds_back:
  assumes "length X = 4"
  shows "md5 e M X =
    (let Y = for_loop 0 64 (md5_round e M) X
     in [Y ! 0 + X ! 0, Y ! 1 + X ! 1, Y ! 2 + X ! 2, Y ! 3 + X ! 3])"
proof -
  let ?Y = "for_loop 0 64 (md5_round e M) X"
  have "length ?Y = 4" using assms by (simp add: for_loop_fold)
  then obtain y0 y1 y2 y3 where Y: "?Y = [y0, y1, y2, y3]"
    using list4 by blast
  show ?thesis
    by (simp add: md5_def Let_def Y)
qed

text \<open>Both functions run on the padding block of the empty message, on a little-endian machine, from the initial values.\<close>

lemma empty_block_words:
    "threetwo LittleEndian empty_block 0 = 0x80"
    "threetwo LittleEndian empty_block (Suc 0) = 0"
    "threetwo LittleEndian empty_block 2 = 0"
    "threetwo LittleEndian empty_block 3 = 0"
    "threetwo LittleEndian empty_block 4 = 0"
    "threetwo LittleEndian empty_block 5 = 0"
    "threetwo LittleEndian empty_block 6 = 0"
    "threetwo LittleEndian empty_block 7 = 0"
    "threetwo LittleEndian empty_block 8 = 0"
    "threetwo LittleEndian empty_block 9 = 0"
    "threetwo LittleEndian empty_block 10 = 0"
    "threetwo LittleEndian empty_block 11 = 0"
    "threetwo LittleEndian empty_block 12 = 0"
    "threetwo LittleEndian empty_block 13 = 0"
    "threetwo LittleEndian empty_block 14 = 0"
    "threetwo LittleEndian empty_block 15 = 0"
  by (simp_all add: threetwo_def mem_word_def empty_block_def replicate_numeral)

lemmas md5_tables = AA_def BB_def CC_def DD_def MM_def S_def T_def A_def B_def C_def D_def

lemmas md5_macros = FF_def GG_def HH_def II_def md5_F_def md5_G_def md5_H_def md5_I_def ROTL_def

lemma md5_rounds_empty:
  "for_loop 0 64 (md5_round LittleEndian empty_block) [A, B, C, D] =
   [0x7246fad3, 0x14e45506, 0xff4ea3eb, 0x6e10a476]"
  by (simp add: for_loop_fold upt_0_64 md5_round_def md5_tables md5_macros empty_block_words)

lemma md5_Program_rounds_empty:
  "seq (md5_Program_rounds LittleEndian empty_block) [A, B, C, D] =
   [0xb9eef507, 0x488da34d, 0x468ed91c, 0xcf67faf1]"
  by (simp add: md5_Program_rounds_def md5_tables md5_macros empty_block_words)

lemma md5_empty:
  "md5 LittleEndian empty_block [A, B, C, D] = [0xd98c1dd4, 0x04b2008f, 0x980980e9, 0x7e42f8ec]"
  by (simp add: md5_def md5_rounds_empty) (simp add: A_def B_def C_def D_def)

lemma md5_Program_empty:
  "md5_Program LittleEndian [A, B, C, D] empty_block [0, 0, 0, 0] =
   ([A, B, C, D], [0xb9eef507, 0x488da34d, 0x468ed91c, 0xcf67faf1])"
  by (simp add: md5_Program_def md5_Program_rounds_empty)

lemma md5_Program_empty_again:
  "md5_Program LittleEndian [A, B, C, D] empty_block [0xb9eef507, 0x488da34d, 0x468ed91c, 0xcf67faf1] =
   ([A, B, C, D], [0x73ddea0e, 0x911b469a, 0x8d1db238, 0x9ecff5e2])"
  by (simp add: md5_Program_def md5_Program_rounds_empty)

text \<open>The programs on the empty file.\<close>

lemma main_md5_nil:
  "length M0 = 64 \<Longrightarrow>
   main_md5 e M0 [] = md5 e (0x80 # replicate 55 0 @ mem_bytes e 8 (0::u64)) [A, B, C, D]"
  by (simp add: main_md5_def while_nextblock_md5_step [OF nextblock_md5_short]
      while_nextblock_md5_FINISH)

lemma main_md5_empty:
  assumes "length M0 = 64"
  shows "main_md5 LittleEndian M0 [] = [0xd98c1dd4, 0x04b2008f, 0x980980e9, 0x7e42f8ec]"
proof -
  have "0x80 # replicate 55 0 @ mem_bytes LittleEndian 8 (0::u64) = empty_block"
    by (simp add: mem_bytes_0 empty_block_def flip: replicate_add)
  then show ?thesis
    using assms by (simp add: main_md5_nil md5_empty)
qed

lemma main_Program_empty:
  "length M0 = 64 \<Longrightarrow> main_Program e M0 [] = [0, 0, 0, 0]"
  by (simp add: main_Program_def while_pad_step [OF pad_short] while_pad_FINISH)

section \<open>The claims\<close>

text \<open>
  C1. For the empty file the eight words that \<^verbatim>\<open>main\<close> of Finalizing\_padding.c prints are
  not the published SHA-256 digest of the empty message, whatever the memory read outside
  the initialised cells holds and whatever the byte order of the machine: every round adds
  the same register to \<^verbatim>\<open>H[5]\<close> and to \<^verbatim>\<open>H[7]\<close>, so \<^verbatim>\<open>H[7] - H[5]\<close> never changes, and in the
  published digest that difference is another one. The claim says the two are equal.
\<close>

theorem sha_empty_digest_differs:
  "fst (main gb e M0 []) \<noteq>
   [0xe3b0c442, 0x98fc1c14, 0x9afbf4c8, 0x996fb924, 0x27ae41e4, 0x649b934c, 0xa495991b, 0x7852b855]"
proof
  assume eq: "fst (main gb e M0 []) =
    [0xe3b0c442, 0x98fc1c14, 0x9afbf4c8, 0x996fb924, 0x27ae41e4, 0x649b934c, 0xa495991b, 0x7852b855]"
  obtain M where "main gb e M0 [] = nexthash gb e M H_init"
    using main_empty by blast
  moreover have "fst (nexthash gb e M H_init) ! 7 - fst (nexthash gb e M H_init) ! 5 =
      H_init ! 7 - H_init ! 5"
    using nexthash_inv [of H_init] by (simp add: H_init_def)
  ultimately show False
    using eq by (simp add: H_init_def)
qed

text \<open>
  C2. The second schedule loop of \<^verbatim>\<open>nexthash\<close> runs from 16 while \<^verbatim>\<open>t < 16\<close>, that is never:
  after both loops the cells 0 to 15 of \<^verbatim>\<open>W\<close> hold the block's words as the machine reads
  them and the cells 16 to 63 have not been written, for every block. What a round then
  reads from \<^verbatim>\<open>W[16]\<close> is uninitialised memory, not the value of the recurrence that the
  claim states.
\<close>

theorem schedule_not_extended:
  "schedule gb e M = (map (\<lambda>t. Some (threetwo e M t)) [0..<16] @ replicate 48 None, []) \<and>
   W_read gb (fst (schedule gb e M)) 16 = (W_mem gb 16, [W_uninitialised 16])"
  by (simp add: schedule_eq W_read_def nth_append)

text \<open>
  C3. The body of the round loop of \<^verbatim>\<open>nexthash\<close> itself adds the registers into \<^verbatim>\<open>H\<close>, in
  every pass, and it adds \<^verbatim>\<open>f\<close> to \<^verbatim>\<open>H[7]\<close>, where \<^verbatim>\<open>h\<close> belongs; so over a whole call
  \<^verbatim>\<open>H[7]\<close> and \<^verbatim>\<open>H[5]\<close> grow by the same amount. The loop makes sixty-five passes: the
  pass with \<^verbatim>\<open>t = 64\<close> shows in the read of \<^verbatim>\<open>K[64]\<close>. The claim says sixty-four rounds,
  one update after the last, each register into its own slot.
\<close>

theorem nexthash_state_update:
  assumes "length H = 8"
  shows
    "fst (snd (nexthash_round gb W t (r, H, fs))) =
       (case fst (nexthash_round gb W t (r, H, fs)) of (a, b, c, d, e, f, g, h) \<Rightarrow>
          [H ! 0 + a, H ! 1 + b, H ! 2 + c, H ! 3 + d, H ! 4 + e, H ! 5 + f, H ! 6 + g, H ! 7 + f]) \<and>
     fst (nexthash gb e M H) ! 7 - H ! 7 = fst (nexthash gb e M H) ! 5 - H ! 5 \<and>
     K_out_of_bounds 64 \<in> set (snd (nexthash gb e M H))"
proof -
  have "fst (nexthash gb e M H) ! 7 - fst (nexthash gb e M H) ! 5 = H ! 7 - H ! 5"
    using nexthash_inv [OF assms] by simp
  then have "fst (nexthash gb e M H) ! 7 - H ! 7 = fst (nexthash gb e M H) ! 5 - H ! 5"
    by (simp add: algebra_simps)
  then show ?thesis
    using round_H [OF assms] by (simp add: nexthash_faults_eq)
qed

theorem nexthash_state_update_witness:
  "length H_init = 8 \<and>
   fst (nexthash \<lparr>W_mem = \<lambda>t. 0, K_mem = \<lambda>t. 0\<rparr> LittleEndian (replicate 64 0) H_init) ! 7 - H_init ! 7 =
   fst (nexthash \<lparr>W_mem = \<lambda>t. 0, K_mem = \<lambda>t. 0\<rparr> LittleEndian (replicate 64 0) H_init) ! 5 - H_init ! 5"
proof -
  have h: "length H_init = 8" by (simp add: H_init_def)
  show ?thesis
    using h nexthash_state_update [OF h] by blast
qed

text \<open>
  C4. In \<^verbatim>\<open>md5\<close> of md5.c the first forty-eight macro calls are the rounds 0 to 47 of the
  table-driven loop of part\_000, with constant \<^verbatim>\<open>T[i]\<close>, shift \<^verbatim>\<open>S[i]\<close> and message word
  \<^verbatim>\<open>MM[i]\<close>. The last sixteen calls use the right constant and message word but all of them
  take the shift \<^verbatim>\<open>S[47]\<close>, which is 23, where the claim wants \<^verbatim>\<open>S[48]\<close> to \<^verbatim>\<open>S[63]\<close>, the
  pattern 6, 10, 15, 21. On the padding block of the empty message, from the initial values,
  the sixty-four calls of md5.c leave other registers than the loop of part\_000.
\<close>

theorem md5_Program_final_group_shift:
  "map (\<lambda>f. f X) (take 48 (md5_Program_rounds e M)) = map (\<lambda>i. md5_round e M i X) [0..<48] \<and>
   map (\<lambda>f. f X) (drop 48 (md5_Program_rounds e M)) =
     map (\<lambda>i. II X (AA ! i) (BB ! i) (CC ! i) (DD ! i) (threetwo e M (MM ! i)) (S ! 47) (T ! i))
       [48..<64] \<and>
   S ! 47 = 23 \<and>
   map (\<lambda>i. S ! i) [48..<64] = [6, 10, 15, 21, 6, 10, 15, 21, 6, 10, 15, 21, 6, 10, 15, 21] \<and>
   seq (md5_Program_rounds LittleEndian empty_block) [A, B, C, D] =
     [0xb9eef507, 0x488da34d, 0x468ed91c, 0xcf67faf1] \<and>
   for_loop 0 64 (md5_round LittleEndian empty_block) [A, B, C, D] =
     [0x7246fad3, 0x14e45506, 0xff4ea3eb, 0x6e10a476]"
proof -
  have a: "map (\<lambda>f. f X) (take 48 (md5_Program_rounds e M)) = map (\<lambda>i. md5_round e M i X) [0..<48]"
    by (simp add: upt_0_48 md5_Program_rounds_def md5_round_def AA_def BB_def CC_def DD_def MM_def)
  have b: "map (\<lambda>f. f X) (drop 48 (md5_Program_rounds e M)) =
     map (\<lambda>i. II X (AA ! i) (BB ! i) (CC ! i) (DD ! i) (threetwo e M (MM ! i)) (S ! 47) (T ! i))
       [48..<64]"
    by (simp add: md5_Program_rounds_def AA_def BB_def CC_def DD_def MM_def)
  have c: "S ! 47 = 23"
    "map (\<lambda>i. S ! i) [48..<64] = [6, 10, 15, 21, 6, 10, 15, 21, 6, 10, 15, 21, 6, 10, 15, 21]"
    by (simp_all add: S_def)
  show ?thesis
    by (simp only: a b c md5_Program_rounds_empty md5_rounds_empty simp_thms)
qed

text \<open>
  C5. \<^verbatim>\<open>md5\<close> of md5.c never stores into \<^verbatim>\<open>state\<close>: the array is the same after the call, and
  the registers after the rounds are added to the global \<^verbatim>\<open>output\<close>. On the padding block of
  the empty message, from the initial values and a zero \<^verbatim>\<open>output\<close>, the state stays at the
  initial values and \<^verbatim>\<open>output\<close> receives the bare registers. The claim says that the state
  itself becomes old state plus registers. (\<^verbatim>\<open>md5\<close> of part\_000 does that: \<open>md5_adds_back\<close>.)
\<close>

theorem md5_Program_state_untouched:
  "fst (md5_Program e state M output) = state \<and>
   md5_Program LittleEndian [A, B, C, D] empty_block [0, 0, 0, 0] =
     ([A, B, C, D], [0xb9eef507, 0x488da34d, 0x468ed91c, 0xcf67faf1])"
  by (simp add: md5_Program_empty) (simp add: md5_Program_def Let_def)

text \<open>
  C6. \<^verbatim>\<open>md5\<close> of md5.c reads and writes the global \<^verbatim>\<open>output\<close>: what it leaves there is the
  old contents plus the registers, so a second call with the same state and the same block
  leaves another result than the first. \<^verbatim>\<open>nexthash\<close> reads \<^verbatim>\<open>K[64]\<close>, which is not part of
  the table: with the same \<^verbatim>\<open>H\<close> and the same block, another word in that place gives
  another \<^verbatim>\<open>H\<close>. The claim says that the result depends on state and block only and that no
  global is touched.
\<close>

theorem compression_not_pure:
  assumes "length H = 8"
  shows
    "snd (md5_Program e state M [o0, o1, o2, o3]) =
       (let X = seq (md5_Program_rounds e M)
                  [ucast (state ! 0), ucast (state ! 1), ucast (state ! 2), ucast (state ! 3)]
        in [o0 + X ! 0, o1 + X ! 1, o2 + X ! 2, o3 + X ! 3]) \<and>
     snd (md5_Program LittleEndian [A, B, C, D] empty_block
            (snd (md5_Program LittleEndian [A, B, C, D] empty_block [0, 0, 0, 0]))) \<noteq>
     snd (md5_Program LittleEndian [A, B, C, D] empty_block [0, 0, 0, 0]) \<and>
     fst (nexthash (gb\<lparr>K_mem := \<lambda>t. K_mem gb t + 1\<rparr>) e M H) \<noteq> fst (nexthash gb e M H)"
proof -
  have "fst (nexthash (gb\<lparr>K_mem := \<lambda>t. K_mem gb t + 1\<rparr>) e M H) \<noteq> fst (nexthash gb e M H)"
    using nexthash_K_mem [OF assms, of gb e M] by auto
  moreover have "snd (md5_Program e state M [o0, o1, o2, o3]) =
       (let X = seq (md5_Program_rounds e M)
                  [ucast (state ! 0), ucast (state ! 1), ucast (state ! 2), ucast (state ! 3)]
        in [o0 + X ! 0, o1 + X ! 1, o2 + X ! 2, o3 + X ! 3])"
    by (simp add: md5_Program_def Let_def)
  ultimately show ?thesis
    by (simp add: md5_Program_empty md5_Program_empty_again)
qed

theorem compression_not_pure_witness:
  "length H_init = 8 \<and>
   fst (nexthash \<lparr>W_mem = \<lambda>t. 0, K_mem = \<lambda>t. 1\<rparr> BigEndian (replicate 64 0) H_init) \<noteq>
   fst (nexthash \<lparr>W_mem = \<lambda>t. 0, K_mem = \<lambda>t. 0\<rparr> BigEndian (replicate 64 0) H_init)"
proof -
  have h: "length H_init = 8" by (simp add: H_init_def)
  show ?thesis
    using h compression_not_pure [OF h, where gb = "\<lparr>W_mem = \<lambda>t. 0, K_mem = \<lambda>t. 0\<rparr>"
        and e = BigEndian and M = "replicate 64 0" and state = "[] :: WORD list"
        and ?o0.0 = 0 and ?o1.0 = 0 and ?o2.0 = 0 and ?o3.0 = 0]
    by simp
qed

text \<open>
  C7. When the padder, in its reading state, gets \<open>n < 56\<close> bytes (which is then all that is
  left of the input, \<open>n = 0\<close> for an empty file included), the block it hands out keeps the
  \<open>n\<close> bytes, has \<open>0x80\<close> at offset \<open>n\<close>, zeros from \<open>n + 1\<close> to 55 and the updated bit
  count in bytes 56 to 63, and the status becomes \<^verbatim>\<open>FINISH\<close>. This holds for \<^verbatim>\<open>nextblock\<close> of
  part\_000 and for \<^verbatim>\<open>pad\<close> of md5.c. On the empty file the loop of either \<^verbatim>\<open>main\<close> gets
  exactly one block, the padding block, and ends; \<^verbatim>\<open>main\<close> of part\_000 calls \<^verbatim>\<open>md5\<close> once, on
  that block.
\<close>

theorem short_read_block:
  assumes "length M = 64" and "length infile < 56"
  shows
    "(case nextblock_md5 e M infile nobits READ of (r, M', infile', nobits', status') \<Rightarrow>
        r \<and> length M' = 64 \<and> take (length infile) M' = infile \<and>
        M' ! length infile = 0x80 \<and>
        (\<forall>i. length infile < i \<and> i < 56 \<longrightarrow> M' ! i = 0) \<and>
        drop 56 M' = mem_bytes e 8 nobits' \<and>
        nobits' = nobits + of_nat (length infile) * 8 \<and> status' = FINISH) \<and>
     (case pad e M infile nobits READ of (r, M', infile', nobits', status') \<Rightarrow>
        r \<and> length M' = 64 \<and> take (length infile) M' = infile \<and>
        M' ! length infile = 0x80 \<and>
        (\<forall>i. length infile < i \<and> i < 56 \<longrightarrow> M' ! i = 0) \<and>
        drop 56 M' = mem_bytes e 8 nobits' \<and>
        nobits' = nobits + 8 * of_nat (length infile) \<and> status' = FINISH) \<and>
     blocks_md5 e M [] = [0x80 # replicate 55 0 @ mem_bytes e 8 (0::u64)] \<and>
     blocks_Program e M [] = [0x80 # replicate 55 0 @ mem_bytes e 8 (0::u64)] \<and>
     main_md5 e M [] = md5 e (0x80 # replicate 55 0 @ mem_bytes e 8 (0::u64)) [A, B, C, D]"
proof -
  let ?n = "length infile"
  have nth: "(infile @ 0x80 # replicate (55 - ?n) 0 @ bs) ! i = 0"
    if "?n < i" "i < 56" for i and bs :: "BYTE list"
  proof -
    have "i - ?n - 1 < 55 - ?n" using that assms by simp
    then show ?thesis using that by (simp add: nth_append nth_Cons')
  qed
  have a: "nextblock_md5 e M infile nobits READ =
      (True, infile @ 0x80 # replicate (55 - ?n) 0 @ mem_bytes e 8 (nobits + of_nat ?n * 8),
       [], nobits + of_nat ?n * 8, FINISH)"
    using assms by (simp add: nextblock_md5_short)
  have b: "pad e M infile nobits READ =
      (True, infile @ 0x80 # replicate (55 - ?n) 0 @ mem_bytes e 8 (nobits + 8 * of_nat ?n),
       [], nobits + 8 * of_nat ?n, FINISH)"
    using assms by (simp add: pad_short)
  have c: "blocks_md5 e M [] = [0x80 # replicate 55 0 @ mem_bytes e 8 (0::u64)]"
    using assms(1)
    by (simp add: blocks_md5_def while_nextblock_md5_step [OF nextblock_md5_short]
        while_nextblock_md5_FINISH)
  have d: "blocks_Program e M [] = [0x80 # replicate 55 0 @ mem_bytes e 8 (0::u64)]"
    using assms(1)
    by (simp add: blocks_Program_def while_pad_step [OF pad_short] while_pad_FINISH)
  have m: "main_md5 e M [] = md5 e (0x80 # replicate 55 0 @ mem_bytes e 8 (0::u64)) [A, B, C, D]"
    using assms(1)
    by (simp add: main_md5_def while_nextblock_md5_step [OF nextblock_md5_short]
        while_nextblock_md5_FINISH)
  have "56 - ?n = Suc (55 - ?n)" using assms by simp
  then show ?thesis
    using assms by (simp add: a b c d m nth)
qed

theorem short_read_block_witness:
  "length (replicate 64 (0::BYTE)) = 64 \<and> length [0x61, 0x62, 0x63 :: BYTE] < 56 \<and>
   nextblock_md5 LittleEndian (replicate 64 0) [0x61, 0x62, 0x63] 0 READ =
     (True, [0x61, 0x62, 0x63, 0x80] @ replicate 52 0 @ [24, 0, 0, 0, 0, 0, 0, 0], [], 24, FINISH)"
proof -
  have "nextblock_md5 LittleEndian (replicate 64 0) [0x61, 0x62, 0x63] 0 READ =
     (True, [0x61, 0x62, 0x63] @ 0x80 # replicate 52 0 @ mem_bytes LittleEndian 8 (24::u64), [], 24, FINISH)"
    by (simp add: nextblock_md5_short)
  then show ?thesis
    using short_read_block [of "replicate 64 0" "[0x61, 0x62, 0x63]" LittleEndian 0]
    by (simp add: mem_bytes_def le_bytes_8)
qed

text \<open>
  C8. The last eight bytes of the padded stream, read back as a 64-bit integer of the
  machine: \<^verbatim>\<open>nextblock\<close> of Finalizing\_padding.c never adds to \<^verbatim>\<open>*nobits\<close>, so for every
  input the field is 0, where the claim wants eight times the number of input bytes;
  \<^verbatim>\<open>nextblock\<close> of part\_000 stores eight times the number of input bytes (modulo \<open>2^64\<close>,
  the width of \<^verbatim>\<open>nobits\<close>).
\<close>

theorem length_field:
  assumes "length M0 = 64"
  shows
    "(let P = concat (blocks e M0 infile)
      in (mem_word e (drop (length P - 8) P) :: u64) = 0) \<and>
     (let P = concat (blocks_md5 e M0 infile)
      in (mem_word e (drop (length P - 8) P) :: u64) = of_nat (length infile) * 8)"
proof -
  let ?z = "replicate (if length infile mod 64 < 56 then 55 - length infile mod 64
                       else 119 - length infile mod 64) (0::BYTE)"
  have a: "concat (blocks e M0 infile) = (infile @ 0x80 # ?z) @ mem_bytes e 8 (0::u64)"
    using assms by (simp add: blocks_def padded)
  have b: "concat (blocks_md5 e M0 infile) =
      (infile @ 0x80 # ?z) @ mem_bytes e 8 (of_nat (length infile) * 8 :: u64)"
    using assms by (simp add: blocks_md5_def padded_md5)
  show ?thesis
    unfolding Let_def a b
    by (simp only: drop_append_length [OF length_mem_bytes] mem_word_mem_bytes simp_thms)
qed

theorem length_field_witness:
  "length (replicate 64 (0::BYTE)) = 64 \<and>
   (let P = concat (blocks BigEndian (replicate 64 0) [0x61])
    in (mem_word BigEndian (drop (length P - 8) P) :: u64) = 0) \<and>
   (let P = concat (blocks_md5 LittleEndian (replicate 64 0) [0x61])
    in (mem_word LittleEndian (drop (length P - 8) P) :: u64) = 8)"
  using length_field [of "replicate 64 0" BigEndian "[0x61]"]
    length_field [of "replicate 64 0" LittleEndian "[0x61]"]
  by simp

text \<open>
  C9. From the reading state to \<^verbatim>\<open>FINISH\<close>, the blocks that \<^verbatim>\<open>nextblock\<close> of part\_000 and
  \<^verbatim>\<open>nextblock\<close> of Finalizing\_padding.c hand out are, put end to end, the input followed by
  one byte \<open>0x80\<close>, then zeros, then the eight bytes of \<^verbatim>\<open>nobits\<close>: one marker byte is
  inserted for every input, right after the last input byte, and all other inserted bytes
  before the length field are zero. When the length of the input is a multiple of 64 the
  marker opens a further block (55 zeros follow it).
\<close>

theorem one_marker:
  assumes "length M0 = 64"
  shows
    "concat (blocks_md5 e M0 infile) =
       infile @ 0x80 # replicate (if length infile mod 64 < 56 then 55 - length infile mod 64
                                  else 119 - length infile mod 64) 0 @
       mem_bytes e 8 (of_nat (length infile) * 8 :: u64) \<and>
     concat (blocks e M0 infile) =
       infile @ 0x80 # replicate (if length infile mod 64 < 56 then 55 - length infile mod 64
                                  else 119 - length infile mod 64) 0 @
       mem_bytes e 8 (0::u64)"
  using assms by (simp add: blocks_md5_def blocks_def padded_md5 padded)

theorem one_marker_witness:
  "length (replicate 64 (0::BYTE)) = 64 \<and>
   concat (blocks_md5 LittleEndian (replicate 64 0) (replicate 64 0x61)) =
     replicate 64 0x61 @ 0x80 # replicate 55 0 @ [0, 2, 0, 0, 0, 0, 0, 0] \<and>
   concat (blocks LittleEndian (replicate 64 0) (replicate 64 0x61)) =
     replicate 64 0x61 @ 0x80 # replicate 55 0 @ [0, 0, 0, 0, 0, 0, 0, 0]"
  using one_marker [of "replicate 64 0" LittleEndian "replicate 64 0x61"]
  by (simp add: mem_bytes_def le_bytes_8)

text \<open>
  C10. In every call of \<^verbatim>\<open>nexthash\<close> the round loop reads \<^verbatim>\<open>W[16]\<close> to \<^verbatim>\<open>W[63]\<close> before
  anything was stored there, and in its sixty-fifth pass (\<^verbatim>\<open>t = 64\<close>) it reads \<^verbatim>\<open>K[64]\<close> and
  \<^verbatim>\<open>W[64]\<close>, one past the end of both arrays. The claim says that every access is in bounds
  and initialised.
\<close>

theorem nexthash_reads:
  "snd (nexthash gb e M H) =
   map W_uninitialised [16..<64] @ [K_out_of_bounds 64, W_out_of_bounds 64]"
  by (rule nexthash_faults_eq)

end
